theory Spec2Isabelle
  imports Complex_Main
begin

section \<open>Data model (src/types/index.ts)\<close>

text \<open>
  \<^verbatim>\<open>BrainNode\<close> and \<^verbatim>\<open>BrainConnection\<close> of the source. The JavaScript numbers are
  modelled as the reals they denote (no rounding), the string union
  \<^verbatim>\<open>'main' | 'secondary' | 'connection'\<close> as a datatype, the optional \<^verbatim>\<open>label\<close> as an
  option. Field names carry a prefix because \<open>id\<close>, \<open>x\<close>, \<open>y\<close> and \<open>type\<close> cannot be
  field names here.
\<close>

datatype node_type = Main | Secondary | Connection

record BrainNode =
  node_id :: string
  node_x :: real
  node_y :: real
  node_radius :: real
  node_label :: "string option"
  node_type :: node_type
  node_connections :: "string list"

record BrainConnection =
  conn_source :: string
  conn_target :: string
  conn_strength :: real

section \<open>Ambient randomness\<close>

text \<open>
  Every call of \<^verbatim>\<open>Math.random()\<close> returns the next element of a sequence of draws. The
  sequence is a parameter \<open>g\<close> of the model and the number of draws made so far is threaded
  through the code as a counter, so that the \<open>n\<close>-th call of a run returns \<open>g n\<close>.
  \<^verbatim>\<open>Math.random()\<close> only returns values in \<open>[0, 1)\<close>.
\<close>

type_synonym rng = "nat \<Rightarrow> real"

definition valid_rng :: "rng \<Rightarrow> bool" where
  "valid_rng g = (\<forall>n. 0 \<le> g n \<and> g n < 1)"

section \<open>Rendering an index in a template string\<close>

text \<open>The decimal numeral that \<^verbatim>\<open>`node-${i}`\<close> inserts for a non-negative integer.\<close>

definition digit_char :: "nat \<Rightarrow> char" where
  "digit_char d = char_of (48 + d)"

fun string_of_nat :: "nat \<Rightarrow> string" where
  "string_of_nat n =
     (if n < 10 then [digit_char n] else string_of_nat (n div 10) @ [digit_char (n mod 10)])"

declare string_of_nat.simps [simp del]

text \<open>Reading a decimal numeral back; only used to show that rendering is injective.\<close>

definition digit_val :: "char \<Rightarrow> nat" where
  "digit_val c = of_char c - 48"

definition nat_of_string :: "string \<Rightarrow> nat" where
  "nat_of_string s = foldl (\<lambda>a c. 10 * a + digit_val c) 0 s"

section \<open>The layout generator (src/components/BrainVisualization.tsx, generateBrainNetwork)\<close>

subsection \<open>Node count, hub vocabulary, regions\<close>

text \<open>\<^verbatim>\<open>Math.min(180, Math.max(120, Math.floor((width * height) / 4000)))\<close>\<close>

definition nodeCount :: "real \<Rightarrow> real \<Rightarrow> nat" where
  "nodeCount width height = nat (min 180 (max 120 \<lfloor>(width * height) / 4000\<rfloor>))"

text \<open>The two literal arrays \<^verbatim>\<open>centralNodes\<close>, as (id, label) pairs; every entry has type main.\<close>

definition centralNodes :: "bool \<Rightarrow> (string \<times> string) list" where
  "centralNodes showLabels =
     (if showLabels then
        [(''mobility'', ''Mobility''),
         (''funding'', ''Funding''),
         (''electric-vehicles'', ''Electric Vehicles''),
         (''startups'', ''Startups''),
         (''europe'', ''Europe'')]
      else
        [(''mobility'', ''Mobility''),
         (''funding'', ''Funding''),
         (''startups'', ''Startups''),
         (''technology'', ''Technology''),
         (''europe'', ''Europe'')])"

record region =
  centerX :: real
  centerY :: real
  region_size :: real

definition brainRegions :: "real \<Rightarrow> real \<Rightarrow> region list" where
  "brainRegions width height =
     [\<lparr>centerX = width * 0.35, centerY = height * 0.3, region_size = 0.22\<rparr>,
      \<lparr>centerX = width * 0.65, centerY = height * 0.3, region_size = 0.22\<rparr>,
      \<lparr>centerX = width * 0.5, centerY = height * 0.25, region_size = 0.18\<rparr>,
      \<lparr>centerX = width * 0.5, centerY = height * 0.4, region_size = 0.16\<rparr>,
      \<lparr>centerX = width * 0.4, centerY = height * 0.2, region_size = 0.14\<rparr>,
      \<lparr>centerX = width * 0.6, centerY = height * 0.2, region_size = 0.14\<rparr>]"

text \<open>\<^verbatim>\<open>brainRegions[Math.floor(Math.random() * brainRegions.length)]\<close> for the draw \<open>r\<close>.\<close>

definition randomRegion :: "real \<Rightarrow> real \<Rightarrow> real \<Rightarrow> region" where
  "randomRegion width height r =
     brainRegions width height ! nat \<lfloor>r * real (length (brainRegions width height))\<rfloor>"

subsection \<open>Hub nodes\<close>

text \<open>
  The body of \<^verbatim>\<open>centralNodes.forEach((node, i) => ...)\<close>: three draws (angle, distance,
  radius), one push.
\<close>

definition placeCentral ::
  "real \<Rightarrow> real \<Rightarrow> rng \<Rightarrow> (string \<times> string) \<times> nat \<Rightarrow> BrainNode list \<times> nat \<Rightarrow> BrainNode list \<times> nat"
where
  "placeCentral width height g ni s =
     (case (ni, s) of (((cid, clabel), i), (newNodes, k)) \<Rightarrow>
        let region = brainRegions width height ! (i mod length (brainRegions width height));
            angle = g k * 2 * pi;
            distance = g (k + 1) * min width height * region_size region * 0.3
        in (newNodes @
              [\<lparr>node_id = cid,
                node_x = centerX region + cos angle * distance,
                node_y = centerY region + sin angle * distance,
                node_radius = 12 + g (k + 2) * 3,
                node_label = Some clabel,
                node_type = Main,
                node_connections = []\<rparr>],
            k + 3))"

definition placeCentrals :: "real \<Rightarrow> real \<Rightarrow> bool \<Rightarrow> rng \<Rightarrow> BrainNode list \<times> nat" where
  "placeCentrals width height showLabels g =
     fold (placeCentral width height g)
       (zip (centralNodes showLabels) [0..<length (centralNodes showLabels)]) ([], 0)"

subsection \<open>The other nodes\<close>

text \<open>
  The first half of the \<^verbatim>\<open>for\<close> body: the position before clamping and the number of
  draws made (four in a region, six on connecting tissue).
\<close>

definition rawPosition :: "real \<Rightarrow> real \<Rightarrow> rng \<Rightarrow> nat \<Rightarrow> real \<times> real \<times> nat" where
  "rawPosition width height g k =
     (if g k > 0.3 then
        let region = randomRegion width height (g (k + 1));
            angle = g (k + 2) * 2 * pi;
            distance = g (k + 3) * min width height * region_size region * 0.8
        in (centerX region + cos angle * distance,
            centerY region + sin angle * distance,
            k + 4)
      else
        let regionA = randomRegion width height (g (k + 1));
            regionB = randomRegion width height (g (k + 2));
            t = g (k + 3)
        in (centerX regionA + t * (centerX regionB - centerX regionA) + (g (k + 4) - 0.5) * 80,
            centerY regionA + t * (centerY regionB - centerY regionA) + (g (k + 5) - 0.5) * 80,
            k + 6))"

text \<open>The distance of a point from the centre of the overall ellipse, in units of its radii.\<close>

definition distanceFromCenter :: "real \<Rightarrow> real \<Rightarrow> real \<Rightarrow> real \<Rightarrow> real" where
  "distanceFromCenter width height x y =
     (let centerX = width * 0.5;
          centerY = height * 0.3;
          maxRadiusX = width * 0.32;
          maxRadiusY = height * 0.25;
          normalizedX = (x - centerX) / maxRadiusX;
          normalizedY = (y - centerY) / maxRadiusY
      in sqrt (normalizedX * normalizedX + normalizedY * normalizedY))"

text \<open>The second half of the \<^verbatim>\<open>for\<close> body: pull a point outside the ellipse back inside.\<close>

definition clampToBrain :: "real \<Rightarrow> real \<Rightarrow> real \<Rightarrow> real \<Rightarrow> real \<times> real" where
  "clampToBrain width height x y =
     (let centerX = width * 0.5;
          centerY = height * 0.3;
          maxRadiusX = width * 0.32;
          maxRadiusY = height * 0.25;
          normalizedX = (x - centerX) / maxRadiusX;
          normalizedY = (y - centerY) / maxRadiusY;
          d = sqrt (normalizedX * normalizedX + normalizedY * normalizedY)
      in if d > 1 then
           (centerX + (normalizedX / d) * maxRadiusX * 0.95,
            centerY + (normalizedY / d) * maxRadiusY * 0.95)
         else (x, y))"

text \<open>One iteration of \<^verbatim>\<open>for (let i = centralNodes.length; i < nodeCount; i++)\<close>.\<close>

definition placeNode ::
  "real \<Rightarrow> real \<Rightarrow> rng \<Rightarrow> nat \<Rightarrow> BrainNode list \<times> nat \<Rightarrow> BrainNode list \<times> nat"
where
  "placeNode width height g i s =
     (case s of (newNodes, k) \<Rightarrow>
        case rawPosition width height g k of (x0, y0, k1) \<Rightarrow>
        case clampToBrain width height x0 y0 of (x, y) \<Rightarrow>
          (newNodes @
             [\<lparr>node_id = ''node-'' @ string_of_nat i,
               node_x = x,
               node_y = y,
               node_radius = g k1 * 2 + 0.8,
               node_label = None,
               node_type = (if g (k1 + 1) > 0.85 then Secondary else Connection),
               node_connections = []\<rparr>],
           k1 + 2))"

text \<open>All nodes after both placement phases, with the number of draws made.\<close>

definition placeNodes :: "real \<Rightarrow> real \<Rightarrow> bool \<Rightarrow> rng \<Rightarrow> BrainNode list \<times> nat" where
  "placeNodes width height showLabels g =
     fold (placeNode width height g)
       [length (centralNodes showLabels)..<nodeCount width height]
       (placeCentrals width height showLabels g)"

subsection \<open>Connections\<close>

definition connectionCount :: "node_type \<Rightarrow> real \<Rightarrow> nat" where
  "connectionCount ty r =
     (if ty = Main then nat \<lfloor>r * 8 + 6\<rfloor> else nat \<lfloor>r * 5 + 3\<rfloor>)"

record candidate =
  cand_node :: BrainNode
  cand_index :: nat
  cand_distance :: real

definition euclid :: "BrainNode \<Rightarrow> BrainNode \<Rightarrow> real" where
  "euclid node target =
     sqrt ((node_x node - node_x target) ^ 2 + (node_y node - node_y target) ^ 2)"

text \<open>
  \<^verbatim>\<open>newNodes.map(...).filter(item => item.index !== i).sort(...).slice(0, connectionCount * 2)\<close>.
  The sort of the source is stable, as \<open>sort_key\<close> is.
\<close>

definition nearbyNodes :: "BrainNode list \<Rightarrow> nat \<Rightarrow> nat \<Rightarrow> candidate list" where
  "nearbyNodes newNodes i cc =
     take (cc * 2)
       (sort_key cand_distance
          (filter (\<lambda>item. cand_index item \<noteq> i)
             (map (\<lambda>(target, index).
                     \<lparr>cand_node = target, cand_index = index,
                      cand_distance = euclid (newNodes ! i) target\<rparr>)
                (zip newNodes [0..<length newNodes]))))"

definition probability :: "node_type \<Rightarrow> nat \<Rightarrow> nat \<Rightarrow> real" where
  "probability ty j cc =
     (if ty = Main then 0.8 else if real j < real cc * 0.6 then 0.7 else 0.4)"

definition maxDistance :: "real \<Rightarrow> real \<Rightarrow> node_type \<Rightarrow> real" where
  "maxDistance width height ty =
     (if ty = Main then min width height * 0.4 else min width height * 0.2)"

text \<open>
  One iteration of the inner \<^verbatim>\<open>for (let j = 0; ...)\<close>: one draw; on acceptance within the
  distance ceiling, a push on \<^verbatim>\<open>newConnections\<close> and a push on the \<^verbatim>\<open>connections\<close> of
  the node object, which is the \<open>i\<close>-th element of \<^verbatim>\<open>newNodes\<close>.
\<close>

definition connectStep ::
  "real \<Rightarrow> real \<Rightarrow> rng \<Rightarrow> nat \<Rightarrow> nat \<Rightarrow> candidate list \<Rightarrow> nat \<Rightarrow>
   BrainNode list \<times> BrainConnection list \<times> nat \<Rightarrow> BrainNode list \<times> BrainConnection list \<times> nat"
where
  "connectStep width height g i cc nearby j s =
     (case s of (newNodes, newConnections, k) \<Rightarrow>
        let node = newNodes ! i;
            targetInfo = nearby ! j;
            p = probability (node_type node) j cc
        in if g k < p then
             let m = maxDistance width height (node_type node)
             in if cand_distance targetInfo < m then
                  (newNodes[i := node\<lparr>node_connections :=
                      node_connections node @ [node_id (cand_node targetInfo)]\<rparr>],
                   newConnections @
                     [\<lparr>conn_source = node_id node,
                       conn_target = node_id (cand_node targetInfo),
                       conn_strength = max 0.2 (1 - cand_distance targetInfo / m)\<rparr>],
                   k + 1)
                else (newNodes, newConnections, k + 1)
           else (newNodes, newConnections, k + 1))"

text \<open>The body of \<^verbatim>\<open>newNodes.forEach((node, i) => ...)\<close>.\<close>

definition connectNode ::
  "real \<Rightarrow> real \<Rightarrow> rng \<Rightarrow> nat \<Rightarrow>
   BrainNode list \<times> BrainConnection list \<times> nat \<Rightarrow> BrainNode list \<times> BrainConnection list \<times> nat"
where
  "connectNode width height g i s =
     (case s of (newNodes, newConnections, k) \<Rightarrow>
        let cc = connectionCount (node_type (newNodes ! i)) (g k);
            nearby = nearbyNodes newNodes i cc
        in fold (connectStep width height g i cc nearby)
             [0..<min cc (length nearby)] (newNodes, newConnections, k + 1))"

definition generateBrainNetwork ::
  "real \<Rightarrow> real \<Rightarrow> bool \<Rightarrow> rng \<Rightarrow> BrainNode list \<times> BrainConnection list"
where
  "generateBrainNetwork width height showLabels g =
     (case placeNodes width height showLabels g of (newNodes, k) \<Rightarrow>
        case fold (connectNode width height g) [0..<length newNodes] (newNodes, [], k) of
          (nodes, connections, k') \<Rightarrow> (nodes, connections))"

section \<open>The search flow (HomePage component, searchWithOllama)\<close>

text \<open>
  Parsed JSON and the values a property access can give. \<open>getProp v k\<close> is \<^verbatim>\<open>v.k\<close>:
  it throws on \<^verbatim>\<open>null\<close> (\<open>None\<close>), gives \<^verbatim>\<open>undefined\<close> for a missing key and for
  a value that is not an object. \<open>truthy\<close> is the test that \<^verbatim>\<open>||\<close> and \<^verbatim>\<open>&&\<close> make.
\<close>

datatype json = JNull | JBool bool | JNum real | JStr string | JArr "json list"
  | JObj "(string \<times> json) list"

datatype js_value = Undefined | Val json

fun truthy :: "js_value \<Rightarrow> bool" where
  "truthy Undefined = False"
| "truthy (Val JNull) = False"
| "truthy (Val (JBool b)) = b"
| "truthy (Val (JNum n)) = (n \<noteq> 0)"
| "truthy (Val (JStr s)) = (s \<noteq> [])"
| "truthy (Val (JArr xs)) = True"
| "truthy (Val (JObj kvs)) = True"

fun getProp :: "json \<Rightarrow> string \<Rightarrow> js_value option" where
  "getProp JNull k = None"
| "getProp (JObj kvs) k = Some (case map_of kvs k of None \<Rightarrow> Undefined | Some v \<Rightarrow> Val v)"
| "getProp v k = Some Undefined"

text \<open>
  A call of \<^verbatim>\<open>fetch\<close> and what it gives back: a rejected promise (\<open>NetworkError\<close>) or a
  response with its \<^verbatim>\<open>ok\<close> flag and its body as \<^verbatim>\<open>response.json()\<close> reads it, \<open>None\<close>
  when that call rejects. The network is a parameter of the model, a function from
  requests to results.
\<close>

record http_request =
  req_method :: string
  req_url :: string
  req_headers :: "(string \<times> string) list"
  req_body :: "json option"

datatype fetch_result = NetworkError | Response bool "json option"

datatype log_entry = ConsoleError string | ConsoleLog string

text \<open>
  The seven \<^verbatim>\<open>useState\<close> cells of the component, together with what the component can affect
  or read outside itself: the console, the requests issued so far and the build
  environment \<^verbatim>\<open>process.env\<close>.
\<close>

record HomePage =
  searchQuery :: string
  showResults :: bool
  isLoading :: bool
  knowledgeGraph :: js_value
  csvStartups :: js_value
  zoomTarget :: "(real \<times> real) option"
  showSectorDropdown :: bool
  console :: "log_entry list"
  requests :: "http_request list"
  process_env :: "string \<Rightarrow> string option"

text \<open>
  \<^verbatim>\<open>toLowerCase\<close> on the ASCII letters and \<^verbatim>\<open>String.prototype.includes\<close>; they only decide
  whether the sector lookup follows a successful search.
\<close>

definition toLowerCase :: "string \<Rightarrow> string" where
  "toLowerCase s =
     map (\<lambda>c. if 65 \<le> (of_char c :: nat) \<and> (of_char c :: nat) \<le> 90
              then char_of ((of_char c :: nat) + 32) else c) s"

definition str_includes :: "string \<Rightarrow> string \<Rightarrow> bool" where
  "str_includes s sub = list_ex (\<lambda>i. take (length sub) (drop i s) = sub) [0..<Suc (length s)]"

text \<open>
The two requests of the source, as the literals of the two \<^verbatim>\<open>fetch\<close> calls give them.
\<close>

definition searchRequest :: "string \<Rightarrow> http_request" where
  "searchRequest query =
     \<lparr>req_method = ''POST'',
      req_url = ''http://localhost:8001/api/search'',
      req_headers = [(''Content-Type'', ''application/json'')],
      req_body = Some (JObj [(''query'', JStr query)])\<rparr>"

definition sectorRequest :: http_request where
  "sectorRequest =
     \<lparr>req_method = ''GET'',
      req_url = ''http://localhost:8001/api/startups/sector/Energy'',
      req_headers = [],
      req_body = None\<rparr>"

text \<open>
The inner \<^verbatim>\<open>try\<close> block: the lookup of the Energy sector.
\<close>

definition searchCsv :: "(http_request \<Rightarrow> fetch_result) \<Rightarrow> HomePage \<Rightarrow> HomePage" where
  "searchCsv fetch st =
     (let st1 = st\<lparr>requests := requests st @ [sectorRequest]\<rparr>;
          csvFailed = st1\<lparr>console := console st1 @ [ConsoleLog ''CSV search not available'']\<rparr>
      in case fetch sectorRequest of
           NetworkError \<Rightarrow> csvFailed
         | Response ok body \<Rightarrow>
             if ok then
               (case body of
                  None \<Rightarrow> csvFailed
                | Some csvData \<Rightarrow>
                    (case getProp csvData ''startups'' of
                       None \<Rightarrow> csvFailed
                     | Some v \<Rightarrow> st1\<lparr>csvStartups := (if truthy v then v else Val (JArr []))\<rparr>))
             else st1)"

text \<open>
  \<^verbatim>\<open>searchWithOllama(query)\<close>, run to completion. \<open>width\<close> and \<open>height\<close> are the window
  size, \<open>g 0\<close> and \<open>g 1\<close> the two draws of the zoom target. The \<^verbatim>\<open>catch\<close> branch is
  \<open>caught\<close>, the \<^verbatim>\<open>finally\<close> block the last update.
\<close>

definition searchWithOllama ::
  "(http_request \<Rightarrow> fetch_result) \<Rightarrow> rng \<Rightarrow> real \<Rightarrow> real \<Rightarrow> string \<Rightarrow> HomePage \<Rightarrow> HomePage"
where
  "searchWithOllama fetch g width height query st =
     (let st1 = st\<lparr>isLoading := True\<rparr>;
          st2 = st1\<lparr>requests := requests st1 @ [searchRequest query]\<rparr>;
          caught = st2\<lparr>console := console st2 @ [ConsoleError ''Error searching:'']\<rparr>;
          st3 =
            (case fetch (searchRequest query) of
               NetworkError \<Rightarrow> caught
             | Response ok body \<Rightarrow>
                 if ok then
                   (case body of
                      None \<Rightarrow> caught
                    | Some data \<Rightarrow>
                        (case getProp data ''knowledge_graph'' of
                           None \<Rightarrow> caught
                         | Some kg \<Rightarrow>
                             let st4 = st2\<lparr>knowledgeGraph := kg\<rparr>;
                                 st5 =
                                   (if str_includes (toLowerCase (searchQuery st)) ''energy'' \<or>
                                       str_includes (toLowerCase (searchQuery st)) ''energia''
                                    then searchCsv fetch st4
                                    else st4\<lparr>csvStartups := Val (JArr [])\<rparr>);
                                 randomX = g 0 * width * 0.3 + width * 0.2;
                                 randomY = g 1 * height * 0.3 + height * 0.2
                             in st5\<lparr>zoomTarget := Some (randomX, randomY), showResults := True\<rparr>))
                 else st2\<lparr>console := console st2 @ [ConsoleError ''Search failed'']\<rparr>)
      in st3\<lparr>isLoading := False\<rparr>)"

text \<open>
The condition under which the results panel is rendered, and the state after mounting.
\<close>

definition resultsPanelVisible :: "HomePage \<Rightarrow> bool" where
  "resultsPanelVisible st = (showResults st \<and> truthy (knowledgeGraph st))"

definition initialPage :: "(string \<Rightarrow> string option) \<Rightarrow> HomePage" where
  "initialPage e =
     \<lparr>searchQuery = '''', showResults = False, isLoading = False, knowledgeGraph = Val JNull,
      csvStartups = Val (JArr []), zoomTarget = None, showSectorDropdown = False,
      console = [], requests = [], process_env = e\<rparr>"

section \<open>Auxiliary notions for the proofs\<close>

text \<open>
  None of the following is code of the program: they name the nodes a run places, the
  facts that hold of every edge, and the concrete inputs used in examples.
\<close>

subsection \<open>Placement\<close>

definition hubNode :: "real \<Rightarrow> real \<Rightarrow> rng \<Rightarrow> string \<Rightarrow> string \<Rightarrow> nat \<Rightarrow> BrainNode" where
  "hubNode width height g cid clabel i =
     (let region = brainRegions width height ! i;
          angle = g (3 * i) * 2 * pi;
          distance = g (3 * i + 1) * min width height * region_size region * 0.3
      in \<lparr>node_id = cid,
          node_x = centerX region + cos angle * distance,
          node_y = centerY region + sin angle * distance,
          node_radius = 12 + g (3 * i + 2) * 3,
          node_label = Some clabel,
          node_type = Main,
          node_connections = []\<rparr>)"

definition hubNodes :: "real \<Rightarrow> real \<Rightarrow> bool \<Rightarrow> rng \<Rightarrow> BrainNode list" where
  "hubNodes w h b g =
     map (\<lambda>((cid, cl), i). hubNode w h g cid cl i) (zip (centralNodes b) [0, 1, 2, 3, 4])"

definition insideBrain :: "real \<Rightarrow> real \<Rightarrow> BrainNode \<Rightarrow> bool" where
  "insideBrain width height n = (distanceFromCenter width height (node_x n) (node_y n) \<le> 1)"

definition isOther :: "nat \<Rightarrow> BrainNode \<Rightarrow> bool" where
  "isOther i n =
     (node_id n = ''node-'' @ string_of_nat i \<and> node_label n = None \<and> node_type n \<noteq> Main)"

subsection \<open>Connections\<close>

text \<open>
  \<open>same_core\<close>: two nodes that differ at most in their \<^verbatim>\<open>connections\<close> list, the only field
  the connection phase writes. \<open>edge_ok\<close>: the edge joins two different positions of the
  node list, closer than the ceiling of its source, with the strength computed from that
  distance.
\<close>

definition same_core :: "BrainNode \<Rightarrow> BrainNode \<Rightarrow> bool" where
  "same_core a b =
     (node_id a = node_id b \<and> node_x a = node_x b \<and> node_y a = node_y b \<and>
      node_radius a = node_radius b \<and> node_label a = node_label b \<and> node_type a = node_type b)"

definition edge_ok :: "real \<Rightarrow> real \<Rightarrow> BrainNode list \<Rightarrow> BrainConnection \<Rightarrow> bool" where
  "edge_ok width height ns e =
     (\<exists>i j. i < length ns \<and> j < length ns \<and> j \<noteq> i \<and>
        conn_source e = node_id (ns ! i) \<and> conn_target e = node_id (ns ! j) \<and>
        euclid (ns ! i) (ns ! j) < maxDistance width height (node_type (ns ! i)) \<and>
        conn_strength e =
          max 0.2 (1 - euclid (ns ! i) (ns ! j) / maxDistance width height (node_type (ns ! i))))"

definition cand_ok :: "BrainNode list \<Rightarrow> nat \<Rightarrow> candidate \<Rightarrow> bool" where
  "cand_ok ns i c =
     (cand_index c < length ns \<and> cand_index c \<noteq> i \<and>
      node_id (cand_node c) = node_id (ns ! cand_index c) \<and>
      cand_distance c = euclid (ns ! i) (ns ! cand_index c))"

definition conn_inv ::
  "real \<Rightarrow> real \<Rightarrow> BrainNode list \<Rightarrow> BrainNode list \<times> BrainConnection list \<times> nat \<Rightarrow> bool" where
  "conn_inv width height ns0 s =
     (case s of (ns, cs, k) \<Rightarrow>
        list_all2 same_core ns0 ns \<and> list_all (edge_ok width height ns0) cs)"

definition newEdge :: "real \<Rightarrow> real \<Rightarrow> BrainNode \<Rightarrow> candidate \<Rightarrow> BrainConnection" where
  "newEdge width height node c =
     \<lparr>conn_source = node_id node,
      conn_target = node_id (cand_node c),
      conn_strength = max 0.2 (1 - cand_distance c / maxDistance width height (node_type node))\<rparr>"

definition accepted ::
  "real \<Rightarrow> real \<Rightarrow> rng \<Rightarrow> node_type \<Rightarrow> nat \<Rightarrow> candidate list \<Rightarrow> nat \<Rightarrow> nat \<Rightarrow> bool" where
  "accepted width height g ty cc nearby k j =
     (g (k + j) < probability ty j cc \<and> cand_distance (nearby ! j) < maxDistance width height ty)"

definition mkCandidate :: "BrainNode \<Rightarrow> BrainNode \<times> nat \<Rightarrow> candidate" where
  "mkCandidate node = (\<lambda>(target, index).
      \<lparr>cand_node = target, cand_index = index, cand_distance = euclid node target\<rparr>)"

definition otherCandidates :: "BrainNode list \<Rightarrow> nat \<Rightarrow> candidate list" where
  "otherCandidates ns i =
     filter (\<lambda>item. cand_index item \<noteq> i) (map (mkCandidate (ns ! i)) (zip ns [0..<length ns]))"

subsection \<open>Failure of a request, the clamp of the specification, example inputs\<close>

definition fetch_failed :: "fetch_result \<Rightarrow> bool" where
  "fetch_failed r = (case r of NetworkError \<Rightarrow> True | Response ok body \<Rightarrow> \<not> ok)"

text \<open>
  The clamp as the specification writes it, on the real quotient; compared with
  \<open>nodeCount\<close> below.
\<close>

definition spec_clamp :: "real \<Rightarrow> real \<Rightarrow> real \<Rightarrow> real" where
  "spec_clamp v lo hi = min hi (max lo v)"

text \<open>
A run in which every draw is 0, and eight nodes on a line.
\<close>

definition zeroRng :: rng where
  "zeroRng = (\<lambda>n. 0)"

definition lineNode :: "nat \<Rightarrow> BrainNode" where
  "lineNode i =
     \<lparr>node_id = ''node-'' @ string_of_nat i, node_x = real i, node_y = 0, node_radius = 1,
      node_label = None, node_type = Connection, node_connections = []\<rparr>"

definition lineNodes :: "BrainNode list" where
  "lineNodes = map lineNode [0, 1, 2, 3, 4, 5, 6, 7]"

section \<open>Rendering indices is injective\<close>

lemma digit_val_digit_char: "d < 10 \<Longrightarrow> digit_val (digit_char d) = d"
  by (simp add: digit_val_def digit_char_def)

lemma nat_of_string_snoc: "nat_of_string (s @ [c]) = 10 * nat_of_string s + digit_val c"
  by (simp add: nat_of_string_def)

lemma nat_of_string_of_nat: "nat_of_string (string_of_nat n) = n"
proof (induction n rule: string_of_nat.induct)
  case (1 n)
  show ?case
  proof (cases "n < 10")
    case True
    then show ?thesis
      by (subst string_of_nat.simps) (simp add: nat_of_string_def digit_val_digit_char)
  next
    case False
    with 1 have "nat_of_string (string_of_nat (n div 10)) = n div 10" by simp
    with False show ?thesis
      by (subst string_of_nat.simps) (simp add: nat_of_string_snoc digit_val_digit_char)
  qed
qed

lemma string_of_nat_inj: "string_of_nat m = string_of_nat n \<Longrightarrow> m = n"
  by (metis nat_of_string_of_nat)

section \<open>Placement\<close>

subsection \<open>The ellipse\<close>

lemma distanceFromCenter_bound:
  assumes w: "0 < w" and h: "0 < h"
    and ax: "\<bar>x - w * 0.5\<bar> \<le> A * (w * 0.32)"
    and ay: "\<bar>y - h * 0.3\<bar> \<le> B * (h * 0.25)"
    and AB: "A * A + B * B \<le> 1" and A0: "0 \<le> A" and B0: "0 \<le> B"
  shows "distanceFromCenter w h x y \<le> 1"
proof -
  define nx where "nx = (x - w * 0.5) / (w * 0.32)"
  define ny where "ny = (y - h * 0.3) / (h * 0.25)"
  have pw: "0 < w * 0.32" and ph: "0 < h * 0.25" using w h by simp_all
  have "\<bar>nx\<bar> = \<bar>x - w * 0.5\<bar> / (w * 0.32)"
    unfolding nx_def abs_divide using pw by (simp only: abs_of_pos)
  also have "\<dots> \<le> A"
    by (subst pos_divide_le_eq) (rule pw, rule ax)
  finally have nxA: "\<bar>nx\<bar> \<le> A" .
  have "\<bar>ny\<bar> = \<bar>y - h * 0.3\<bar> / (h * 0.25)"
    unfolding ny_def abs_divide using ph by (simp only: abs_of_pos)
  also have "\<dots> \<le> B"
    by (subst pos_divide_le_eq) (rule ph, rule ay)
  finally have nyB: "\<bar>ny\<bar> \<le> B" .
  have "nx * nx = \<bar>nx\<bar> * \<bar>nx\<bar>" by simp
  also have "\<dots> \<le> A * A" using nxA by (intro mult_mono) auto
  finally have x2: "nx * nx \<le> A * A" .
  have "ny * ny = \<bar>ny\<bar> * \<bar>ny\<bar>" by simp
  also have "\<dots> \<le> B * B" using nyB by (intro mult_mono) auto
  finally have y2: "ny * ny \<le> B * B" .
  have "nx * nx + ny * ny \<le> 1" using x2 y2 AB by linarith
  then have "sqrt (nx * nx + ny * ny) \<le> 1" by simp
  then show ?thesis
    unfolding distanceFromCenter_def Let_def nx_def ny_def .
qed

lemma offset_bound:
  assumes "0 \<le> (r::real)" "r < 1" "0 \<le> m" "0 \<le> c" "\<bar>t\<bar> \<le> 1"
  shows "\<bar>t * (r * m * c)\<bar> \<le> m * c"
proof -
  have "r * (m * c) \<le> 1 * (m * c)"
    using assms by (intro mult_right_mono) auto
  then have rm: "r * m * c \<le> m * c" by (simp add: mult.assoc)
  have nn: "0 \<le> r * m * c" using assms by simp
  have "\<bar>t * (r * m * c)\<bar> = \<bar>t\<bar> * (r * m * c)"
    by (subst abs_mult) (simp only: abs_of_nonneg [OF nn])
  also have "\<dots> \<le> 1 * (r * m * c)"
    using assms nn by (intro mult_right_mono) auto
  finally show ?thesis using rm by simp
qed

lemma clampToBrain_inside:
  assumes w: "0 < w" and h: "0 < h"
  shows "distanceFromCenter w h (fst (clampToBrain w h x y)) (snd (clampToBrain w h x y)) \<le> 1"
proof -
  define nx where "nx = (x - w * 0.5) / (w * 0.32)"
  define ny where "ny = (y - h * 0.3) / (h * 0.25)"
  define d where "d = sqrt (nx * nx + ny * ny)"
  have cl: "clampToBrain w h x y =
      (if d > 1 then
         (w * 0.5 + (nx / d) * (w * 0.32) * 0.95, h * 0.3 + (ny / d) * (h * 0.25) * 0.95)
       else (x, y))"
    unfolding clampToBrain_def Let_def nx_def ny_def d_def by (rule refl)
  show ?thesis
  proof (cases "d > 1")
    case False
    have "distanceFromCenter w h x y = d"
      unfolding distanceFromCenter_def Let_def nx_def ny_def d_def by (rule refl)
    with cl False show ?thesis by simp
  next
    case True
    have dpos: "0 < d" using True by simp
    have d2: "d * d = nx * nx + ny * ny"
      unfolding d_def by (simp add: add_nonneg_nonneg)
    have e1: "(w * 0.5 + (nx / d) * (w * 0.32) * 0.95 - w * 0.5) / (w * 0.32) = nx / d * 0.95"
      using w by simp
    have e2: "(h * 0.3 + (ny / d) * (h * 0.25) * 0.95 - h * 0.3) / (h * 0.25) = ny / d * 0.95"
      using h by simp
    have "(nx / d) * (nx / d) + (ny / d) * (ny / d) = (nx * nx + ny * ny) / (d * d)"
      by (simp add: add_divide_distrib)
    also have "\<dots> = 1" unfolding d2 [symmetric] using dpos by simp
    finally have uv: "(nx / d) * (nx / d) + (ny / d) * (ny / d) = 1" .
    have "(nx / d * 0.95) * (nx / d * 0.95) + (ny / d * 0.95) * (ny / d * 0.95)
        = ((nx / d) * (nx / d) + (ny / d) * (ny / d)) * (0.95 * 0.95)"
      by algebra
    also have "\<dots> = 0.95 * 0.95" unfolding uv by simp
    finally have s: "(nx / d * 0.95) * (nx / d * 0.95) + (ny / d * 0.95) * (ny / d * 0.95) \<le> 1"
      by simp
    have "distanceFromCenter w h (w * 0.5 + (nx / d) * (w * 0.32) * 0.95)
            (h * 0.3 + (ny / d) * (h * 0.25) * 0.95)
          = sqrt ((nx / d * 0.95) * (nx / d * 0.95) + (ny / d * 0.95) * (ny / d * 0.95))"
      unfolding distanceFromCenter_def Let_def e1 e2 ..
    also have "\<dots> \<le> 1" using s by simp
    finally show ?thesis using cl True by simp
  qed
qed

lemma region_offset_inside:
  fixes w h r a cx cy sz A B :: real
  assumes w: "0 < w" and h: "0 < h" and r: "0 \<le> r" "r < 1" and sz: "0 \<le> sz"
    and t: "\<bar>tx\<bar> \<le> 1" "\<bar>ty\<bar> \<le> 1"
    and A: "\<bar>cx - 0.5\<bar> + sz * 0.3 \<le> A * 0.32" and B: "\<bar>cy - 0.3\<bar> + sz * 0.3 \<le> B * 0.25"
    and AB: "A * A + B * B \<le> 1" and A0: "0 \<le> A" and B0: "0 \<le> B"
  shows "distanceFromCenter w h (w * cx + tx * (r * min w h * sz * 0.3))
           (h * cy + ty * (r * min w h * sz * 0.3)) \<le> 1"
proof (rule distanceFromCenter_bound [OF w h _ _ AB A0 B0])
  have m0: "0 \<le> min w h" using w h by simp
  have s0: "0 \<le> sz * 0.3" using sz by simp
  have ox: "\<bar>tx * (r * min w h * (sz * 0.3))\<bar> \<le> min w h * (sz * 0.3)"
    by (rule offset_bound [OF r m0 s0 t(1)])
  have oy: "\<bar>ty * (r * min w h * (sz * 0.3))\<bar> \<le> min w h * (sz * 0.3)"
    by (rule offset_bound [OF r m0 s0 t(2)])
  have mw: "min w h * (sz * 0.3) \<le> w * (sz * 0.3)"
    using s0 by (intro mult_right_mono) auto
  have mh: "min w h * (sz * 0.3) \<le> h * (sz * 0.3)"
    using s0 by (intro mult_right_mono) auto
  have ex: "w * cx + tx * (r * min w h * sz * 0.3) - w * 0.5
      = w * (cx - 0.5) + tx * (r * min w h * (sz * 0.3))"
    by (simp add: algebra_simps)
  have ey: "h * cy + ty * (r * min w h * sz * 0.3) - h * 0.3
      = h * (cy - 0.3) + ty * (r * min w h * (sz * 0.3))"
    by (simp add: algebra_simps)
  have "\<bar>w * (cx - 0.5) + tx * (r * min w h * (sz * 0.3))\<bar>
      \<le> \<bar>w * (cx - 0.5)\<bar> + \<bar>tx * (r * min w h * (sz * 0.3))\<bar>"
    by (rule abs_triangle_ineq)
  also have "\<bar>w * (cx - 0.5)\<bar> = w * \<bar>cx - 0.5\<bar>"
    using w by (simp add: abs_mult)
  also have "w * \<bar>cx - 0.5\<bar> + \<bar>tx * (r * min w h * (sz * 0.3))\<bar>
      \<le> w * \<bar>cx - 0.5\<bar> + w * (sz * 0.3)"
    using ox mw by linarith
  also have "\<dots> = w * (\<bar>cx - 0.5\<bar> + sz * 0.3)"
    by (simp add: distrib_left)
  also have "\<dots> \<le> w * (A * 0.32)"
    using w A by (intro mult_left_mono) auto
  also have "w * (A * 0.32) = A * (w * 0.32)"
    by (rule mult.left_commute)
  finally show "\<bar>w * cx + tx * (r * min w h * sz * 0.3) - w * 0.5\<bar> \<le> A * (w * 0.32)"
    unfolding ex .
  have "\<bar>h * (cy - 0.3) + ty * (r * min w h * (sz * 0.3))\<bar>
      \<le> \<bar>h * (cy - 0.3)\<bar> + \<bar>ty * (r * min w h * (sz * 0.3))\<bar>"
    by (rule abs_triangle_ineq)
  also have "\<bar>h * (cy - 0.3)\<bar> = h * \<bar>cy - 0.3\<bar>"
    using h by (simp add: abs_mult)
  also have "h * \<bar>cy - 0.3\<bar> + \<bar>ty * (r * min w h * (sz * 0.3))\<bar>
      \<le> h * \<bar>cy - 0.3\<bar> + h * (sz * 0.3)"
    using oy mh by linarith
  also have "\<dots> = h * (\<bar>cy - 0.3\<bar> + sz * 0.3)"
    by (simp add: distrib_left)
  also have "\<dots> \<le> h * (B * 0.25)"
    using h B by (intro mult_left_mono) auto
  also have "h * (B * 0.25) = B * (h * 0.25)"
    by (rule mult.left_commute)
  finally show "\<bar>h * cy + ty * (r * min w h * sz * 0.3) - h * 0.3\<bar> \<le> B * (h * 0.25)"
    unfolding ey .
qed

lemma hub_inside:
  assumes w: "0 < w" and h: "0 < h" and g: "valid_rng g"
    and x: "node_x n = w * cx + cos a * (g k * min w h * sz * 0.3)"
    and y: "node_y n = h * cy + sin a * (g k * min w h * sz * 0.3)"
    and sz: "0 \<le> sz"
    and A: "\<bar>cx - 0.5\<bar> + sz * 0.3 \<le> A * 0.32" and B: "\<bar>cy - 0.3\<bar> + sz * 0.3 \<le> B * 0.25"
    and AB: "A * A + B * B \<le> 1" and A0: "0 \<le> A" and B0: "0 \<le> B"
  shows "insideBrain w h n"
proof -
  have r: "0 \<le> g k" "g k < 1"
    using g by (simp_all add: valid_rng_def)
  show ?thesis
    unfolding insideBrain_def x y
    by (rule region_offset_inside [OF w h r sz abs_cos_le_one abs_sin_le_one A B AB A0 B0])
qed

subsection \<open>Hub nodes\<close>

lemma upt5: "[0..<5] = [0, 1, 2, 3, 4::nat]"
  by (simp add: upt_rec)

lemma placeCentrals_eq:
  "placeCentrals w h b g =
     (map (\<lambda>((cid, cl), i). hubNode w h g cid cl i) (zip (centralNodes b) [0, 1, 2, 3, 4]), 15)"
  by (cases b) (simp_all add: placeCentrals_def centralNodes_def upt5 placeCentral_def hubNode_def
      brainRegions_def Let_def)

lemma hubNode_inside:
  assumes w: "0 < w" and h: "0 < h" and g: "valid_rng g" and i: "i < 5"
  shows "insideBrain w h (hubNode w h g cid cl i)"
proof -
  note H = hub_inside [OF w h g]
  from i consider "i = 0" | "i = 1" | "i = 2" | "i = 3" | "i = 4" by linarith
  then show ?thesis
  proof cases
    case 1
    show ?thesis unfolding 1
      by (rule H [where cx = "0.35" and cy = "0.3" and sz = "0.22" and A = "0.7" and B = "0.3"
            and k = 1 and a = "g 0 * 2 * pi"])
        (simp_all add: hubNode_def brainRegions_def Let_def)
  next
    case 2
    show ?thesis unfolding 2
      by (rule H [where cx = "0.65" and cy = "0.3" and sz = "0.22" and A = "0.7" and B = "0.3"
            and k = 4 and a = "g 3 * 2 * pi"])
        (simp_all add: hubNode_def brainRegions_def Let_def)
  next
    case 3
    show ?thesis unfolding 3
      by (rule H [where cx = "0.5" and cy = "0.25" and sz = "0.18" and A = "0.2" and B = "0.5"
            and k = 7 and a = "g 6 * 2 * pi"])
        (simp_all add: hubNode_def brainRegions_def Let_def)
  next
    case 4
    show ?thesis unfolding 4
      by (rule H [where cx = "0.5" and cy = "0.4" and sz = "0.16" and A = "0.2" and B = "0.6"
            and k = 10 and a = "g 9 * 2 * pi"])
        (simp_all add: hubNode_def brainRegions_def Let_def)
  next
    case 5
    show ?thesis unfolding 5
      by (rule H [where cx = "0.4" and cy = "0.2" and sz = "0.14" and A = "0.5" and B = "0.6"
            and k = 13 and a = "g 12 * 2 * pi"])
        (simp_all add: hubNode_def brainRegions_def Let_def)
  qed
qed

lemma length_centralNodes: "length (centralNodes b) = 5"
  by (simp add: centralNodes_def)

lemma length_hubNodes: "length (hubNodes w h b g) = 5"
  by (simp add: hubNodes_def length_centralNodes)

lemma hub_ids: "map node_id (hubNodes w h b g) = map fst (centralNodes b)"
  by (simp add: hubNodes_def centralNodes_def hubNode_def Let_def)

lemma hub_labels: "map node_label (hubNodes w h b g) = map (Some \<circ> snd) (centralNodes b)"
  by (simp add: hubNodes_def centralNodes_def hubNode_def Let_def)

lemma hub_types: "n \<in> set (hubNodes w h b g) \<Longrightarrow> node_type n = Main"
  by (auto simp add: hubNodes_def centralNodes_def hubNode_def Let_def split: if_splits)

lemma hubNodes_inside:
  assumes "0 < w" "0 < h" "valid_rng g" "n \<in> set (hubNodes w h b g)"
  shows "insideBrain w h n"
proof -
  from assms(4) obtain cid cl i where n: "n = hubNode w h g cid cl i"
      and z: "((cid, cl), i) \<in> set (zip (centralNodes b) [0, 1, 2, 3, 4])"
    by (auto simp add: hubNodes_def)
  have "i \<in> set [0, 1, 2, 3, 4]"
    using z by (rule set_zip_rightD)
  then have "i < 5" by auto
  then show ?thesis
    unfolding n by (rule hubNode_inside [OF assms(1-3)])
qed

lemma central_ids_not_node:
  "c \<in> set (map fst (centralNodes b)) \<Longrightarrow> c \<noteq> ''node-'' @ s"
  by (auto simp add: centralNodes_def split: if_splits)

lemma distinct_central_ids: "distinct (map fst (centralNodes b))"
  by (simp add: centralNodes_def)

subsection \<open>The other nodes\<close>

lemma placeNode_shape:
  "\<exists>m k'. placeNode w h g i (ns, k) = (ns @ [m], k') \<and> isOther i m \<and>
     (0 < w \<longrightarrow> 0 < h \<longrightarrow> insideBrain w h m)"
proof -
  obtain x0 y0 k1 where raw: "rawPosition w h g k = (x0, y0, k1)"
    by (cases "rawPosition w h g k") auto
  obtain x y where cl: "clampToBrain w h x0 y0 = (x, y)"
    by (cases "clampToBrain w h x0 y0") auto
  have ins: "0 < w \<Longrightarrow> 0 < h \<Longrightarrow> distanceFromCenter w h x y \<le> 1"
    using clampToBrain_inside [of w h x0 y0] cl by simp
  show ?thesis
    using ins by (simp add: placeNode_def raw cl isOther_def insideBrain_def)
qed

lemma fold_placeNode_shape:
  "\<exists>ms k'. fold (placeNode w h g) js (ns, k) = (ns @ ms, k') \<and> list_all2 isOther js ms \<and>
     (0 < w \<longrightarrow> 0 < h \<longrightarrow> (\<forall>m\<in>set ms. insideBrain w h m))"
proof (induction js arbitrary: ns k)
  case Nil
  then show ?case by simp
next
  case (Cons j js)
  obtain m k1 where step: "placeNode w h g j (ns, k) = (ns @ [m], k1)" "isOther j m"
      "0 < w \<longrightarrow> 0 < h \<longrightarrow> insideBrain w h m"
    using placeNode_shape [of w h g j ns k] by blast
  obtain ms k2 where rest: "fold (placeNode w h g) js (ns @ [m], k1) = ((ns @ [m]) @ ms, k2)"
      "list_all2 isOther js ms" "0 < w \<longrightarrow> 0 < h \<longrightarrow> (\<forall>m\<in>set ms. insideBrain w h m)"
    using Cons.IH [of "ns @ [m]" k1] by blast
  have "fold (placeNode w h g) (j # js) (ns, k) = (ns @ (m # ms), k2)"
    using step(1) rest(1) by simp
  moreover have "list_all2 isOther (j # js) (m # ms)"
    using step(2) rest(2) by simp
  moreover have "0 < w \<longrightarrow> 0 < h \<longrightarrow> (\<forall>m'\<in>set (m # ms). insideBrain w h m')"
    using step(3) rest(3) by simp
  ultimately show ?case by blast
qed

lemma nodeCount_bounds: "120 \<le> nodeCount w h \<and> nodeCount w h \<le> 180"
  unfolding nodeCount_def by linarith

lemma placeNodes_shape:
  "\<exists>ms k. placeNodes w h b g = (hubNodes w h b g @ ms, k) \<and>
       list_all2 isOther [5..<nodeCount w h] ms \<and>
       (0 < w \<longrightarrow> 0 < h \<longrightarrow> (\<forall>m\<in>set ms. insideBrain w h m))"
  unfolding placeNodes_def length_centralNodes placeCentrals_eq hubNodes_def [symmetric]
  by (rule fold_placeNode_shape)

lemma length_placeNodes: "length (fst (placeNodes w h b g)) = nodeCount w h"
proof -
  obtain ms k where s: "placeNodes w h b g = (hubNodes w h b g @ ms, k)"
      "list_all2 isOther [5..<nodeCount w h] ms"
    using placeNodes_shape [of w h b g] by blast
  have "length ms = nodeCount w h - 5"
    using list_all2_lengthD [OF s(2)] by simp
  then show ?thesis
    using s(1) nodeCount_bounds [of w h] by (simp add: length_hubNodes)
qed

lemma others_ids:
  assumes "list_all2 isOther js ms"
  shows "map node_id ms = map (\<lambda>j. ''node-'' @ string_of_nat j) js"
  using assms by (induction rule: list_all2_induct) (simp_all add: isOther_def)

lemma distinct_placed_ids: "distinct (map node_id (fst (placeNodes w h b g)))"
proof -
  obtain ms k where s: "placeNodes w h b g = (hubNodes w h b g @ ms, k)"
      "list_all2 isOther [5..<nodeCount w h] ms"
    using placeNodes_shape [of w h b g] by blast
  have ids: "map node_id ms = map (\<lambda>j. ''node-'' @ string_of_nat j) [5..<nodeCount w h]"
    by (rule others_ids [OF s(2)])
  have "inj (\<lambda>j. ''node-'' @ string_of_nat j)"
    by (rule injI) (simp add: string_of_nat_inj)
  then have d2: "distinct (map node_id ms)"
    unfolding ids by (simp add: distinct_map inj_on_def)
  have d1: "distinct (map node_id (hubNodes w h b g))"
    unfolding hub_ids by (rule distinct_central_ids)
  have disj: "set (map node_id (hubNodes w h b g)) \<inter> set (map node_id ms) = {}"
    unfolding hub_ids ids using central_ids_not_node [of _ b] by auto
  show ?thesis
    using d1 d2 disj by (simp add: s(1))
qed

section \<open>The connection phase\<close>

subsection \<open>Candidates\<close>

lemma nearbyNodes_set:
  assumes "c \<in> set (nearbyNodes ns i cc)"
  shows "cand_index c < length ns \<and> cand_index c \<noteq> i \<and> cand_node c = ns ! cand_index c \<and>
         cand_distance c = euclid (ns ! i) (ns ! cand_index c)"
proof -
  define mk where "mk = (\<lambda>(target, index).
      \<lparr>cand_node = target, cand_index = index, cand_distance = euclid (ns ! i) target\<rparr>)"
  from assms have "c \<in> set (sort_key cand_distance (filter (\<lambda>item. cand_index item \<noteq> i)
             (map mk (zip ns [0..<length ns]))))"
    unfolding nearbyNodes_def mk_def by (rule in_set_takeD)
  then have ne: "cand_index c \<noteq> i" and "c \<in> mk ` set (zip ns [0..<length ns])"
    by simp_all
  then obtain p where z0: "p \<in> set (zip ns [0..<length ns])" and c0: "c = mk p"
    by blast
  obtain t idx where p: "p = (t, idx)" by (cases p) auto
  have z: "(t, idx) \<in> set (zip ns [0..<length ns])" using z0 p by simp
  have c: "c = \<lparr>cand_node = t, cand_index = idx, cand_distance = euclid (ns ! i) t\<rparr>"
    using c0 p by (simp add: mk_def)
  from z obtain n where "n < length ns" "t = ns ! n" "idx = [0..<length ns] ! n"
    by (auto simp add: in_set_zip)
  then have "idx < length ns" "t = ns ! idx" by simp_all
  with ne c show ?thesis by simp
qed

lemma nearbyNodes_cand_ok: "c \<in> set (nearbyNodes ns i cc) \<Longrightarrow> cand_ok ns i c"
  using nearbyNodes_set [of c ns i cc] by (simp add: cand_ok_def)

lemma nearbyNodes_alt:
  "nearbyNodes ns i cc = take (cc * 2) (sort_key cand_distance (otherCandidates ns i))"
  by (simp add: nearbyNodes_def otherCandidates_def mkCandidate_def)

lemma index_otherCandidates:
  "map cand_index (otherCandidates ns i) = filter (\<lambda>j. j \<noteq> i) [0..<length ns]"
proof -
  have "map cand_index (map (mkCandidate (ns ! i)) (zip ns [0..<length ns]))
      = map snd (zip ns [0..<length ns])"
    by (simp add: mkCandidate_def split_def comp_def)
  also have "\<dots> = [0..<length ns]"
    by (simp add: map_snd_zip)
  finally have m: "map cand_index (map (mkCandidate (ns ! i)) (zip ns [0..<length ns]))
      = [0..<length ns]" .
  have "map cand_index (otherCandidates ns i)
      = filter (\<lambda>j. j \<noteq> i) (map cand_index (map (mkCandidate (ns ! i)) (zip ns [0..<length ns])))"
    unfolding otherCandidates_def by (simp add: filter_map comp_def)
  then show ?thesis unfolding m .
qed

lemma length_otherCandidates:
  assumes "i < length ns"
  shows "length (otherCandidates ns i) = length ns - 1"
proof -
  have "length (otherCandidates ns i) = length (map cand_index (otherCandidates ns i))"
    by simp
  also have "\<dots> = length (filter (\<lambda>j. j \<noteq> i) [0..<length ns])"
    unfolding index_otherCandidates ..
  also have "\<dots> = card ({j. j \<noteq> i} \<inter> set [0..<length ns])"
    by (rule distinct_length_filter) simp
  also have "{j. j \<noteq> i} \<inter> set [0..<length ns] = {0..<length ns} - {i}"
    by auto
  also have "card ({0..<length ns} - {i}) = length ns - 1"
    using assms by simp
  finally show ?thesis .
qed

lemma length_nearbyNodes:
  "i < length ns \<Longrightarrow> length (nearbyNodes ns i cc) = min (cc * 2) (length ns - 1)"
  by (simp add: nearbyNodes_alt length_otherCandidates min.commute)

lemma sorted_nearbyNodes: "sorted (map cand_distance (nearbyNodes ns i cc))"
proof -
  have "sorted (take (cc * 2) (map cand_distance (sort_key cand_distance (otherCandidates ns i)))
                @ drop (cc * 2) (map cand_distance (sort_key cand_distance (otherCandidates ns i))))"
    by simp
  then have "sorted (take (cc * 2) (map cand_distance (sort_key cand_distance (otherCandidates ns i))))"
    unfolding sorted_append by blast
  then show ?thesis
    unfolding nearbyNodes_alt take_map .
qed

lemma distinct_nearbyNodes: "distinct (map cand_index (nearbyNodes ns i cc))"
proof -
  have "distinct (map cand_index (otherCandidates ns i))"
    unfolding index_otherCandidates by simp
  then have "distinct (map cand_index (sort_key cand_distance (otherCandidates ns i)))"
    by (simp add: distinct_map)
  then show ?thesis
    unfolding nearbyNodes_alt take_map [symmetric] by (rule distinct_take)
qed

lemma nearbyNodes_nearest:
  assumes m: "m < length ns" "m \<noteq> i" "m \<notin> cand_index ` set (nearbyNodes ns i cc)"
    and c: "c \<in> set (nearbyNodes ns i cc)"
  shows "cand_distance c \<le> euclid (ns ! i) (ns ! m)"
proof -
  define S where "S = sort_key cand_distance (otherCandidates ns i)"
  define d where "d = mkCandidate (ns ! i) (ns ! m, m)"
  have "(ns ! m, m) \<in> set (zip ns [0..<length ns])"
    using m(1) by (auto simp add: in_set_zip)
  then have "d \<in> set (otherCandidates ns i)"
    using m(2) by (auto simp add: otherCandidates_def d_def mkCandidate_def)
  then have dS: "d \<in> set S" by (simp add: S_def)
  have "cand_index d = m" by (simp add: d_def mkCandidate_def)
  then have "d \<notin> set (take (cc * 2) S)"
    using m(3) unfolding nearbyNodes_alt S_def [symmetric] by auto
  moreover have "set S = set (take (cc * 2) S) \<union> set (drop (cc * 2) S)"
    by (metis append_take_drop_id set_append)
  ultimately have dd: "d \<in> set (drop (cc * 2) S)"
    using dS by blast
  have ct: "c \<in> set (take (cc * 2) S)"
    using c unfolding nearbyNodes_alt S_def [symmetric] .
  have "sorted (map cand_distance (take (cc * 2) S @ drop (cc * 2) S))"
    by (simp add: S_def)
  then have "\<forall>x\<in>set (map cand_distance (take (cc * 2) S)).
             \<forall>y\<in>set (map cand_distance (drop (cc * 2) S)). x \<le> y"
    unfolding map_append sorted_append by blast
  then have "cand_distance c \<le> cand_distance d"
    using ct dd by simp
  then show ?thesis
    by (simp add: d_def mkCandidate_def)
qed

lemma nearbyNodes_first_le:
  assumes m: "m < length ns" "m \<noteq> i" and cc: "0 < cc"
  shows "cand_distance (nearbyNodes ns i cc ! 0) \<le> euclid (ns ! i) (ns ! m)"
proof -
  define S where "S = sort_key cand_distance (otherCandidates ns i)"
  define d where "d = mkCandidate (ns ! i) (ns ! m, m)"
  have "(ns ! m, m) \<in> set (zip ns [0..<length ns])"
    using m(1) by (auto simp add: in_set_zip)
  then have "d \<in> set (otherCandidates ns i)"
    using m(2) by (auto simp add: otherCandidates_def d_def mkCandidate_def)
  then have dS: "d \<in> set S" by (simp add: S_def)
  then obtain x xs where S: "S = x # xs" by (cases S) auto
  have "sorted (map cand_distance (x # xs))"
    unfolding S [symmetric] by (simp add: S_def)
  then have "cand_distance x \<le> cand_distance d"
    using dS S by auto
  moreover have "nearbyNodes ns i cc ! 0 = x"
    unfolding nearbyNodes_alt S_def [symmetric] S using cc by simp
  ultimately show ?thesis
    by (simp add: d_def mkCandidate_def)
qed

subsection \<open>An invariant of the connection phase\<close>

lemma same_core_refl: "same_core a a"
  by (simp add: same_core_def)

lemma same_core_euclid: "same_core a a' \<Longrightarrow> same_core b b' \<Longrightarrow> euclid a b = euclid a' b'"
  by (simp add: same_core_def euclid_def)

lemma same_core_push: "same_core a b \<Longrightarrow> same_core a (b\<lparr>node_connections := xs\<rparr>)"
  by (simp add: same_core_def)

lemma same_core_map:
  assumes "list_all2 same_core xs ys"
  shows "map node_id ys = map node_id xs \<and> map node_label ys = map node_label xs \<and>
         map node_type ys = map node_type xs"
  using assms by (induction rule: list_all2_induct) (simp_all add: same_core_def)

lemma edge_ok_transfer:
  assumes "list_all2 same_core ns ns'" "edge_ok w h ns e"
  shows "edge_ok w h ns' e"
proof -
  from assms(2) obtain i j where ij: "i < length ns" "j < length ns" "j \<noteq> i"
      "conn_source e = node_id (ns ! i)" "conn_target e = node_id (ns ! j)"
      "euclid (ns ! i) (ns ! j) < maxDistance w h (node_type (ns ! i))"
      "conn_strength e = max 0.2 (1 - euclid (ns ! i) (ns ! j) / maxDistance w h (node_type (ns ! i)))"
    unfolding edge_ok_def by blast
  have len: "length ns' = length ns"
    using assms(1) by (simp add: list_all2_lengthD)
  have ci: "same_core (ns ! i) (ns' ! i)" and cj: "same_core (ns ! j) (ns' ! j)"
    using assms(1) ij(1,2) by (simp_all add: list_all2_nthD)
  have eu: "euclid (ns ! i) (ns ! j) = euclid (ns' ! i) (ns' ! j)"
    by (rule same_core_euclid [OF ci cj])
  have ty: "node_type (ns ! i) = node_type (ns' ! i)"
    and idi: "node_id (ns ! i) = node_id (ns' ! i)" and idj: "node_id (ns ! j) = node_id (ns' ! j)"
    using ci cj by (simp_all add: same_core_def)
  have "i < length ns' \<and> j < length ns' \<and> j \<noteq> i \<and>
        conn_source e = node_id (ns' ! i) \<and> conn_target e = node_id (ns' ! j) \<and>
        euclid (ns' ! i) (ns' ! j) < maxDistance w h (node_type (ns' ! i)) \<and>
        conn_strength e =
          max 0.2 (1 - euclid (ns' ! i) (ns' ! j) / maxDistance w h (node_type (ns' ! i)))"
    using ij len eu ty idi idj by simp
  then show ?thesis
    unfolding edge_ok_def by blast
qed

lemma cand_ok_transfer:
  assumes "list_all2 same_core ns0 ns" "i < length ns0" "cand_ok ns i c"
  shows "cand_ok ns0 i c"
proof -
  have len: "length ns = length ns0"
    using assms(1) by (simp add: list_all2_lengthD)
  have j: "cand_index c < length ns0"
    using assms(3) len by (simp add: cand_ok_def)
  have ci: "same_core (ns0 ! i) (ns ! i)"
    and cj: "same_core (ns0 ! cand_index c) (ns ! cand_index c)"
    using assms(1,2) j by (simp_all add: list_all2_nthD)
  have "euclid (ns0 ! i) (ns0 ! cand_index c) = euclid (ns ! i) (ns ! cand_index c)"
    by (rule same_core_euclid [OF ci cj])
  moreover have "node_id (ns0 ! cand_index c) = node_id (ns ! cand_index c)"
    using cj by (simp add: same_core_def)
  ultimately show ?thesis
    using assms(3) j by (simp add: cand_ok_def)
qed

lemma connectStep_inv:
  assumes inv: "conn_inv w h ns0 s" and i: "i < length ns0" and j: "j < length nearby"
    and cands: "\<forall>c\<in>set nearby. cand_ok ns0 i c"
  shows "conn_inv w h ns0 (connectStep w h g i cc nearby j s)"
proof -
  obtain ns cs k where s: "s = (ns, cs, k)" by (cases s) auto
  have core: "list_all2 same_core ns0 ns" and edges: "list_all (edge_ok w h ns0) cs"
    using inv by (simp_all add: conn_inv_def s)
  have len: "length ns = length ns0"
    using core by (simp add: list_all2_lengthD)
  define c where "c = nearby ! j"
  have cok: "cand_ok ns0 i c" using cands j by (simp add: c_def)
  have ci: "same_core (ns0 ! i) (ns ! i)"
    using core i by (simp add: list_all2_nthD)
  then have ty: "node_type (ns ! i) = node_type (ns0 ! i)" and idi: "node_id (ns ! i) = node_id (ns0 ! i)"
    by (simp_all add: same_core_def)
  have core': "list_all2 same_core ns0 (ns[i := (ns ! i)\<lparr>node_connections := xs\<rparr>])" for xs
    using core i ci by (auto simp add: list_all2_conv_all_nth nth_list_update same_core_push)
  have new: "cand_distance c < maxDistance w h (node_type (ns0 ! i)) \<Longrightarrow>
      edge_ok w h ns0 \<lparr>conn_source = node_id (ns0 ! i), conn_target = node_id (cand_node c),
          conn_strength = max 0.2 (1 - cand_distance c / maxDistance w h (node_type (ns0 ! i)))\<rparr>"
    unfolding edge_ok_def using cok i unfolding cand_ok_def
    by (intro exI [of _ i] exI [of _ "cand_index c"]) simp
  show ?thesis
    using core core' edges new
    by (simp add: s connectStep_def Let_def conn_inv_def ty idi c_def [symmetric])
qed

lemma fold_connectStep_inv:
  assumes "conn_inv w h ns0 s" "i < length ns0" "\<forall>j\<in>set js. j < length nearby"
    "\<forall>c\<in>set nearby. cand_ok ns0 i c"
  shows "conn_inv w h ns0 (fold (connectStep w h g i cc nearby) js s)"
  using assms
proof (induction js arbitrary: s)
  case Nil
  then show ?case by simp
next
  case (Cons j js)
  have "conn_inv w h ns0 (connectStep w h g i cc nearby j s)"
    using Cons.prems by (intro connectStep_inv) auto
  then show ?case
    using Cons.prems by (simp add: Cons.IH)
qed

lemma connectNode_inv:
  assumes inv: "conn_inv w h ns0 s" and i: "i < length ns0"
  shows "conn_inv w h ns0 (connectNode w h g i s)"
proof -
  obtain ns cs k where s: "s = (ns, cs, k)" by (cases s) auto
  have core: "list_all2 same_core ns0 ns"
    using inv by (simp add: conn_inv_def s)
  define cc where "cc = connectionCount (node_type (ns ! i)) (g k)"
  define nearby where "nearby = nearbyNodes ns i cc"
  have cands: "\<forall>c\<in>set nearby. cand_ok ns0 i c"
    unfolding nearby_def using cand_ok_transfer [OF core i] nearbyNodes_cand_ok by blast
  have inv': "conn_inv w h ns0 (ns, cs, k + 1)"
    using inv by (simp add: conn_inv_def s)
  have "conn_inv w h ns0 (fold (connectStep w h g i cc nearby) [0..<min cc (length nearby)] (ns, cs, k + 1))"
    by (rule fold_connectStep_inv [OF inv' i _ cands]) simp
  then show ?thesis
    by (simp add: s connectNode_def Let_def cc_def nearby_def)
qed

lemma fold_connectNode_inv:
  assumes "conn_inv w h ns0 s" "\<forall>i\<in>set js. i < length ns0"
  shows "conn_inv w h ns0 (fold (connectNode w h g) js s)"
  using assms
proof (induction js arbitrary: s)
  case Nil
  then show ?case by simp
next
  case (Cons i js)
  have "conn_inv w h ns0 (connectNode w h g i s)"
    using Cons.prems by (intro connectNode_inv) auto
  then show ?case
    using Cons.prems by (simp add: Cons.IH)
qed

lemma generate_inv:
  assumes "generateBrainNetwork w h b g = (nodes, edges)"
  shows "list_all2 same_core (fst (placeNodes w h b g)) nodes \<and>
         list_all (edge_ok w h nodes) edges"
proof -
  obtain ns0 k where p: "placeNodes w h b g = (ns0, k)" by (cases "placeNodes w h b g") auto
  obtain k' where f: "fold (connectNode w h g) [0..<length ns0] (ns0, [], k) = (nodes, edges, k')"
    using assms by (auto simp add: generateBrainNetwork_def p split: prod.splits)
  have "conn_inv w h ns0 (ns0, [], k)"
    by (simp add: conn_inv_def list_all2_refl same_core_refl)
  then have "conn_inv w h ns0 (fold (connectNode w h g) [0..<length ns0] (ns0, [], k))"
    by (rule fold_connectNode_inv) simp
  then have c: "list_all2 same_core ns0 nodes" and e: "list_all (edge_ok w h ns0) edges"
    by (simp_all add: f conn_inv_def)
  have "list_all (edge_ok w h nodes) edges"
    using e edge_ok_transfer [OF c] by (simp add: list_all_iff)
  with c show ?thesis by (simp add: p)
qed

subsection \<open>What one node contributes\<close>

lemma connectStep_eq:
  assumes i: "i < length ns"
  shows "\<exists>ns'. connectStep w h g i cc nearby j (ns, cs, k + j) =
           (ns', cs @ (if accepted w h g (node_type (ns ! i)) cc nearby k j
                       then [newEdge w h (ns ! i) (nearby ! j)] else []), k + Suc j) \<and>
           length ns' = length ns \<and> node_type (ns' ! i) = node_type (ns ! i) \<and>
           node_id (ns' ! i) = node_id (ns ! i)"
  using i by (simp add: connectStep_def Let_def accepted_def newEdge_def)

lemma fold_connectStep_eq:
  assumes "i < length ns" "a \<le> b"
  shows "\<exists>ns'. fold (connectStep w h g i cc nearby) [a..<b] (ns, cs, k + a) =
           (ns', cs @ map (\<lambda>j. newEdge w h (ns ! i) (nearby ! j))
                        (filter (accepted w h g (node_type (ns ! i)) cc nearby k) [a..<b]),
            k + b) \<and>
           length ns' = length ns \<and> node_type (ns' ! i) = node_type (ns ! i) \<and>
           node_id (ns' ! i) = node_id (ns ! i)"
  using assms
proof (induction "b - a" arbitrary: a ns cs)
  case 0
  then show ?case by simp
next
  case (Suc n)
  then have ab: "a < b" and n: "n = b - Suc a" and le: "Suc a \<le> b" by simp_all
  obtain ns1 where s1: "connectStep w h g i cc nearby a (ns, cs, k + a) =
           (ns1, cs @ (if accepted w h g (node_type (ns ! i)) cc nearby k a
                       then [newEdge w h (ns ! i) (nearby ! a)] else []), k + Suc a)"
      and l1: "length ns1 = length ns" and t1: "node_type (ns1 ! i) = node_type (ns ! i)"
      and d1: "node_id (ns1 ! i) = node_id (ns ! i)"
    using connectStep_eq [OF Suc.prems(1), of w h g cc nearby a cs k] by blast
  have i1: "i < length ns1" using Suc.prems(1) l1 by simp
  define cs1 where "cs1 = cs @ (if accepted w h g (node_type (ns ! i)) cc nearby k a
                       then [newEdge w h (ns ! i) (nearby ! a)] else [])"
  obtain ns2 where s2: "fold (connectStep w h g i cc nearby) [Suc a..<b] (ns1, cs1, k + Suc a) =
           (ns2, cs1 @ map (\<lambda>j. newEdge w h (ns1 ! i) (nearby ! j))
                        (filter (accepted w h g (node_type (ns1 ! i)) cc nearby k) [Suc a..<b]),
            k + b)"
      and l2: "length ns2 = length ns1" and t2: "node_type (ns2 ! i) = node_type (ns1 ! i)"
      and d2: "node_id (ns2 ! i) = node_id (ns1 ! i)"
    using Suc.hyps(1) [OF n i1 le, of cs1] by blast
  have ne: "newEdge w h (ns1 ! i) c = newEdge w h (ns ! i) c" for c
    by (simp add: newEdge_def t1 d1)
  have "fold (connectStep w h g i cc nearby) [a..<b] (ns, cs, k + a) =
        fold (connectStep w h g i cc nearby) [Suc a..<b] (ns1, cs1, k + Suc a)"
    using ab s1 by (simp add: upt_conv_Cons cs1_def)
  also have "\<dots> = (ns2, cs @ map (\<lambda>j. newEdge w h (ns ! i) (nearby ! j))
                        (filter (accepted w h g (node_type (ns ! i)) cc nearby k) [a..<b]),
            k + b)"
    unfolding s2 using ab by (simp add: upt_conv_Cons cs1_def ne t1)
  finally show ?case
    using l1 l2 t1 t2 d1 d2 by simp
qed

lemma connectNode_eq:
  assumes i: "i < length ns"
  shows "\<exists>ns'. connectNode w h g i (ns, cs, k) =
           (ns',
            cs @ map (\<lambda>j. newEdge w h (ns ! i)
                        (nearbyNodes ns i (connectionCount (node_type (ns ! i)) (g k)) ! j))
                   (filter (accepted w h g (node_type (ns ! i))
                              (connectionCount (node_type (ns ! i)) (g k))
                              (nearbyNodes ns i (connectionCount (node_type (ns ! i)) (g k)))
                              (k + 1))
                      [0..<min (connectionCount (node_type (ns ! i)) (g k))
                             (length (nearbyNodes ns i (connectionCount (node_type (ns ! i)) (g k))))]),
            k + 1 + min (connectionCount (node_type (ns ! i)) (g k))
                      (length (nearbyNodes ns i (connectionCount (node_type (ns ! i)) (g k))))) \<and>
           length ns' = length ns"
proof -
  define cc where "cc = connectionCount (node_type (ns ! i)) (g k)"
  define nearby where "nearby = nearbyNodes ns i cc"
  obtain ns' where f: "fold (connectStep w h g i cc nearby) [0..<min cc (length nearby)] (ns, cs, (k + 1) + 0) =
           (ns', cs @ map (\<lambda>j. newEdge w h (ns ! i) (nearby ! j))
                        (filter (accepted w h g (node_type (ns ! i)) cc nearby (k + 1))
                           [0..<min cc (length nearby)]),
            (k + 1) + min cc (length nearby))" and l: "length ns' = length ns"
    using fold_connectStep_eq [OF i, of 0 "min cc (length nearby)" w h g cc nearby cs "k + 1"]
    by blast
  have "connectNode w h g i (ns, cs, k) =
      fold (connectStep w h g i cc nearby) [0..<min cc (length nearby)] (ns, cs, (k + 1) + 0)"
    by (simp add: connectNode_def Let_def cc_def nearby_def)
  then show ?thesis
    using f l unfolding cc_def [symmetric] nearby_def [symmetric] by simp
qed

lemma fold_connectNode_prefix:
  assumes "\<forall>i\<in>set js. i < length ns"
  shows "\<exists>ns' cs' k'. fold (connectNode w h g) js (ns, cs, k) = (ns', cs @ cs', k') \<and>
           length ns' = length ns"
  using assms
proof (induction js arbitrary: ns cs k)
  case Nil
  then show ?case by simp
next
  case (Cons i js)
  have i: "i < length ns" using Cons.prems by simp
  obtain ns1 new k1 where s1: "connectNode w h g i (ns, cs, k) = (ns1, cs @ new, k1)"
      and l1: "length ns1 = length ns"
    using connectNode_eq [OF i, of w h g cs k] by blast
  have "\<forall>i\<in>set js. i < length ns1" using Cons.prems l1 by simp
  then obtain ns' cs' k' where s2: "fold (connectNode w h g) js (ns1, cs @ new, k1)
      = (ns', (cs @ new) @ cs', k')" and l2: "length ns' = length ns1"
    using Cons.IH [of ns1 "cs @ new" k1] by blast
  have "fold (connectNode w h g) (i # js) (ns, cs, k) = (ns', cs @ (new @ cs'), k')"
    using s1 s2 by simp
  then show ?case using l1 l2 by auto
qed

lemma connectionCount_bounds:
  assumes "0 \<le> r" "r < 1"
  shows "(ty = Main \<longrightarrow> 6 \<le> connectionCount ty r \<and> connectionCount ty r \<le> 13) \<and>
         (ty \<noteq> Main \<longrightarrow> 3 \<le> connectionCount ty r \<and> connectionCount ty r \<le> 7)"
proof -
  define a where "a = \<lfloor>r * 8 + 6\<rfloor>"
  define b where "b = \<lfloor>r * 5 + 3\<rfloor>"
  have "6 \<le> a \<and> a \<le> 13" "3 \<le> b \<and> b \<le> 7"
    unfolding a_def b_def using assms by linarith+
  then show ?thesis
    unfolding connectionCount_def a_def [symmetric] b_def [symmetric] by auto
qed

lemma probability_mono: "j \<le> j' \<Longrightarrow> probability ty j' cc \<le> probability ty j cc"
  by (simp add: probability_def)

lemma probability_hub: "ty \<noteq> Main \<Longrightarrow> probability ty j cc < probability Main j' cc'"
  by (simp add: probability_def)

lemma probability_range: "0 < probability ty j cc \<and> probability ty j cc < 1"
  by (simp add: probability_def)

section \<open>A generated layout as a whole\<close>

lemma length_generate: "length (fst (generateBrainNetwork w h b g)) = nodeCount w h"
proof -
  obtain nodes edges where ge: "generateBrainNetwork w h b g = (nodes, edges)"
    by (cases "generateBrainNetwork w h b g") auto
  have "list_all2 same_core (fst (placeNodes w h b g)) nodes"
    using generate_inv [OF ge] by simp
  then have "length nodes = length (fst (placeNodes w h b g))"
    by (simp add: list_all2_lengthD)
  then show ?thesis
    by (simp add: ge length_placeNodes)
qed

lemma distinct_generate_ids: "distinct (map node_id (fst (generateBrainNetwork w h b g)))"
proof -
  obtain nodes edges where ge: "generateBrainNetwork w h b g = (nodes, edges)"
    by (cases "generateBrainNetwork w h b g") auto
  have "list_all2 same_core (fst (placeNodes w h b g)) nodes"
    using generate_inv [OF ge] by simp
  then have "map node_id nodes = map node_id (fst (placeNodes w h b g))"
    using same_core_map by blast
  then show ?thesis
    by (simp add: ge distinct_placed_ids)
qed

lemma generate_edges_ok:
  assumes "e \<in> set (snd (generateBrainNetwork w h b g))"
  shows "edge_ok w h (fst (generateBrainNetwork w h b g)) e"
proof -
  obtain nodes edges where ge: "generateBrainNetwork w h b g = (nodes, edges)"
    by (cases "generateBrainNetwork w h b g") auto
  have "list_all (edge_ok w h nodes) edges"
    using generate_inv [OF ge] by simp
  then show ?thesis
    using assms by (simp add: ge list_all_iff)
qed

lemma euclid_nonneg: "0 \<le> euclid a b"
  by (simp add: euclid_def)

lemma strength_range:
  assumes "0 \<le> d" "d < m"
  shows "0 < max 0.2 (1 - d / m) \<and> max 0.2 (1 - d / m) \<le> (1::real)"
proof -
  have "0 < m" using assms by linarith
  then have "0 \<le> d / m" using assms(1) by simp
  then show ?thesis by simp
qed

lemma generate_split:
  "\<exists>hs ms. fst (generateBrainNetwork w h b g) = hs @ ms \<and>
      list_all2 same_core (hubNodes w h b g) hs \<and>
      (\<exists>ms0. list_all2 same_core ms0 ms \<and> list_all2 isOther [5..<nodeCount w h] ms0 \<and>
         (0 < w \<longrightarrow> 0 < h \<longrightarrow> (\<forall>m\<in>set ms0. insideBrain w h m)))"
proof -
  obtain nodes edges where ge: "generateBrainNetwork w h b g = (nodes, edges)"
    by (cases "generateBrainNetwork w h b g") auto
  obtain ms0 k where s: "placeNodes w h b g = (hubNodes w h b g @ ms0, k)"
      "list_all2 isOther [5..<nodeCount w h] ms0"
      "0 < w \<longrightarrow> 0 < h \<longrightarrow> (\<forall>m\<in>set ms0. insideBrain w h m)"
    using placeNodes_shape [of w h b g] by blast
  have "list_all2 same_core (hubNodes w h b g @ ms0) nodes"
    using generate_inv [OF ge] by (simp add: s(1))
  then obtain hs ms where "nodes = hs @ ms" "list_all2 same_core (hubNodes w h b g) hs"
      "list_all2 same_core ms0 ms"
    by (auto simp add: list_all2_append1)
  then show ?thesis
    using s(2,3) by (auto simp add: ge)
qed

lemma generate_hubs:
  "filter (\<lambda>n. node_type n = Main) (fst (generateBrainNetwork w h b g))
     = take 5 (fst (generateBrainNetwork w h b g)) \<and>
   filter (\<lambda>n. node_label n \<noteq> None) (fst (generateBrainNetwork w h b g))
     = take 5 (fst (generateBrainNetwork w h b g)) \<and>
   map node_label (take 5 (fst (generateBrainNetwork w h b g)))
     = map (Some \<circ> snd) (centralNodes b)"
proof -
  obtain hs ms ms0 where sp: "fst (generateBrainNetwork w h b g) = hs @ ms"
      "list_all2 same_core (hubNodes w h b g) hs"
      "list_all2 same_core ms0 ms" "list_all2 isOther [5..<nodeCount w h] ms0"
    using generate_split [of w h b g] by blast
  have lh: "length hs = 5"
    using list_all2_lengthD [OF sp(2)] by (simp add: length_hubNodes)
  have hl: "map node_label hs = map (Some \<circ> snd) (centralNodes b)"
    and ht: "map node_type hs = map node_type (hubNodes w h b g)"
    using same_core_map [OF sp(2)] by (simp_all add: hub_labels)
  have "\<forall>t\<in>set (map node_type (hubNodes w h b g)). t = Main"
    using hub_types by auto
  then have ht': "\<forall>n\<in>set hs. node_type n = Main"
    unfolding ht [symmetric] by simp
  have "\<forall>l\<in>set (map node_label hs). l \<noteq> None"
    unfolding hl by auto
  then have hl': "\<forall>n\<in>set hs. node_label n \<noteq> None"
    by simp
  have m0: "\<forall>n\<in>set ms0. node_type n \<noteq> Main \<and> node_label n = None"
    using sp(4) by (auto simp add: list_all2_conv_all_nth in_set_conv_nth isOther_def)
  have "\<forall>n\<in>set ms. node_type n \<noteq> Main \<and> node_label n = None"
  proof
    fix n assume "n \<in> set ms"
    then obtain j where j: "j < length ms" "n = ms ! j"
      by (auto simp add: in_set_conv_nth)
    have sc: "same_core (ms0 ! j) (ms ! j)" and "ms0 ! j \<in> set ms0"
      using sp(3) j(1) by (simp_all add: list_all2_conv_all_nth)
    then have "node_type (ms0 ! j) \<noteq> Main \<and> node_label (ms0 ! j) = None"
      using m0 by blast
    then show "node_type n \<noteq> Main \<and> node_label n = None"
      using sc j(2) by (simp add: same_core_def)
  qed
  then have f1: "filter (\<lambda>n. node_type n = Main) ms = []"
    and f2: "filter (\<lambda>n. node_label n \<noteq> None) ms = []"
    by (simp_all add: filter_empty_conv)
  have g1: "filter (\<lambda>n. node_type n = Main) hs = hs"
    and g2: "filter (\<lambda>n. node_label n \<noteq> None) hs = hs"
    using ht' hl' by (simp_all add: filter_id_conv)
  have t: "take 5 (hs @ ms) = hs"
    using lh by simp
  have a1: "filter (\<lambda>n. node_type n = Main) (hs @ ms) = hs"
    unfolding filter_append f1 g1 by simp
  have a2: "filter (\<lambda>n. node_label n \<noteq> None) (hs @ ms) = hs"
    unfolding filter_append f2 g2 by simp
  show ?thesis
    unfolding sp(1) t a1 a2 using hl by simp
qed

lemma generate_inside:
  assumes w: "0 < w" and h: "0 < h" and g: "valid_rng g"
    and n: "n \<in> set (fst (generateBrainNetwork w h b g))"
  shows "insideBrain w h n"
proof -
  obtain hs ms ms0 where sp: "fst (generateBrainNetwork w h b g) = hs @ ms"
      "list_all2 same_core (hubNodes w h b g) hs"
      "list_all2 same_core ms0 ms" "\<forall>m\<in>set ms0. insideBrain w h m"
    using generate_split [of w h b g] w h by blast
  have all0: "\<forall>m\<in>set (hubNodes w h b g @ ms0). insideBrain w h m"
    using sp(4) hubNodes_inside [OF w h g] by auto
  have core: "list_all2 same_core (hubNodes w h b g @ ms0) (hs @ ms)"
    using sp(2,3) by (rule list_all2_appendI)
  from n obtain j where j: "j < length (hs @ ms)" "n = (hs @ ms) ! j"
    unfolding sp(1) in_set_conv_nth by blast
  have len: "length (hubNodes w h b g @ ms0) = length (hs @ ms)"
    using core by (rule list_all2_lengthD)
  have "same_core ((hubNodes w h b g @ ms0) ! j) n"
    unfolding j(2) using core j(1) by (simp add: list_all2_conv_all_nth)
  moreover have "insideBrain w h ((hubNodes w h b g @ ms0) ! j)"
    using all0 j(1) len by (metis nth_mem)
  ultimately show ?thesis
    by (simp add: insideBrain_def same_core_def)
qed

subsection \<open>A run with all draws 0\<close>

lemma nodeCount_800_600: "nodeCount 800 600 = 120"
  by (simp add: nodeCount_def)

lemma valid_zeroRng: "valid_rng zeroRng"
  by (simp add: valid_rng_def zeroRng_def)

lemma zero_run_first_step:
  assumes p: "placeNodes 800 600 False zeroRng = (ns0, k0)"
  shows "length ns0 = 120"
    and "connectionCount (node_type (ns0 ! 0)) (zeroRng k0) = 6"
    and "length (nearbyNodes ns0 0 6) = 12"
    and "cand_distance (nearbyNodes ns0 0 6 ! 0) < maxDistance 800 600 (node_type (ns0 ! 0))"
    and "node_type (ns0 ! 0) = Main"
proof -
  show len: "length ns0 = 120"
    using length_placeNodes [of 800 600 False zeroRng] by (simp add: p nodeCount_800_600)
  obtain ms k where s: "placeNodes 800 600 False zeroRng = (hubNodes 800 600 False zeroRng @ ms, k)"
    using placeNodes_shape [of 800 600 False zeroRng] by blast
  then have ns0: "ns0 = hubNodes 800 600 False zeroRng @ ms"
    using p by simp
  have n0: "ns0 ! 0 = hubNode 800 600 zeroRng ''mobility'' ''Mobility'' 0"
    and n4: "ns0 ! 4 = hubNode 800 600 zeroRng ''europe'' ''Europe'' 4"
    by (simp_all add: ns0 hubNodes_def centralNodes_def nth_append)
  show ty: "node_type (ns0 ! 0) = Main"
    by (simp add: n0 hubNode_def Let_def)
  show "connectionCount (node_type (ns0 ! 0)) (zeroRng k0) = 6"
    by (simp add: ty connectionCount_def zeroRng_def)
  show "length (nearbyNodes ns0 0 6) = 12"
    using len by (simp add: length_nearbyNodes)
  have "euclid (ns0 ! 0) (ns0 ! 4) = sqrt 5200"
    by (simp add: n0 n4 euclid_def hubNode_def brainRegions_def zeroRng_def Let_def)
  moreover have "sqrt 5200 \<le> 100"
    by (rule real_le_lsqrt) simp_all
  ultimately have "euclid (ns0 ! 0) (ns0 ! 4) < 240" by simp
  moreover have "cand_distance (nearbyNodes ns0 0 6 ! 0) \<le> euclid (ns0 ! 0) (ns0 ! 4)"
    by (rule nearbyNodes_first_le) (simp_all add: len)
  moreover have "maxDistance 800 600 Main = 240"
    by (simp add: maxDistance_def)
  ultimately show "cand_distance (nearbyNodes ns0 0 6 ! 0) < maxDistance 800 600 (node_type (ns0 ! 0))"
    by (simp add: ty)
qed

lemma example_edge: "\<exists>e. e \<in> set (snd (generateBrainNetwork 800 600 False zeroRng))"
proof -
  obtain ns0 k0 where p: "placeNodes 800 600 False zeroRng = (ns0, k0)"
    by (cases "placeNodes 800 600 False zeroRng") auto
  note z = zero_run_first_step [OF p]
  have i0: "0 < length ns0" using z(1) by simp
  obtain ns1 where s1: "connectNode 800 600 zeroRng 0 (ns0, [], k0) =
      (ns1,
       [] @ map (\<lambda>j. newEdge 800 600 (ns0 ! 0) (nearbyNodes ns0 0 6 ! j))
              (filter (accepted 800 600 zeroRng (node_type (ns0 ! 0)) 6 (nearbyNodes ns0 0 6) (k0 + 1))
                 [0..<min 6 (length (nearbyNodes ns0 0 6))]),
       k0 + 1 + min 6 (length (nearbyNodes ns0 0 6)))" and l1: "length ns1 = length ns0"
    using connectNode_eq [OF i0, of 800 600 zeroRng "[]" k0] unfolding z(2) by blast
  define new where "new = map (\<lambda>j. newEdge 800 600 (ns0 ! 0) (nearbyNodes ns0 0 6 ! j))
              (filter (accepted 800 600 zeroRng (node_type (ns0 ! 0)) 6 (nearbyNodes ns0 0 6) (k0 + 1))
                 [0..<min 6 (length (nearbyNodes ns0 0 6))])"
  have acc: "accepted 800 600 zeroRng (node_type (ns0 ! 0)) 6 (nearbyNodes ns0 0 6) (k0 + 1) 0"
    using z(4) by (simp add: accepted_def z(5) probability_def zeroRng_def)
  have "(0::nat) \<in> set (filter
      (accepted 800 600 zeroRng (node_type (ns0 ! 0)) 6 (nearbyNodes ns0 0 6) (k0 + 1))
      [0..<min 6 (length (nearbyNodes ns0 0 6))])"
    using acc by (simp add: z(3))
  then have "filter (accepted 800 600 zeroRng (node_type (ns0 ! 0)) 6 (nearbyNodes ns0 0 6) (k0 + 1))
      [0..<min 6 (length (nearbyNodes ns0 0 6))] \<noteq> []"
    by (metis empty_iff empty_set)
  then have ne: "new \<noteq> []"
    unfolding new_def by simp
  have "[0..<length ns0] = 0 # [1..<length ns0]"
    using i0 by (simp add: upt_conv_Cons)
  then have "fold (connectNode 800 600 zeroRng) [0..<length ns0] (ns0, [], k0)
      = fold (connectNode 800 600 zeroRng) [1..<length ns0] (ns1, new, k0 + 1 + min 6 (length (nearbyNodes ns0 0 6)))"
    using s1 by (simp add: new_def)
  moreover have pre: "\<forall>i\<in>set [1..<length ns0]. i < length ns1"
    using l1 by simp
  obtain ns' cs' k' where "fold (connectNode 800 600 zeroRng) [1..<length ns0]
      (ns1, new, k0 + 1 + min 6 (length (nearbyNodes ns0 0 6))) = (ns', new @ cs', k')"
    using fold_connectNode_prefix [OF pre, of 800 600 zeroRng new
        "k0 + 1 + min 6 (length (nearbyNodes ns0 0 6))"] by blast
  ultimately have "snd (generateBrainNetwork 800 600 False zeroRng) = new @ cs'"
    by (simp add: generateBrainNetwork_def p)
  then show ?thesis
    using ne by (cases new) auto
qed

subsection \<open>Eight nodes on a line\<close>

lemma euclid_lineNode: "euclid (lineNode i) (lineNode j) = \<bar>real i - real j\<bar>"
  by (simp add: euclid_def lineNode_def)

lemma lineNodes_nearby:
  "map cand_index (nearbyNodes lineNodes 0 3) = [1, 2, 3, 4, 5, 6]"
  by (simp add: nearbyNodes_def lineNodes_def euclid_lineNode upt_rec)

lemma lineNodes_nearby2:
  "map cand_distance (nearbyNodes lineNodes 0 3) = [1, 2, 3, 4, 5, 6]"
  by (simp add: nearbyNodes_def lineNodes_def euclid_lineNode upt_rec)

subsection \<open>The search flow\<close>

lemma search_failure:
  assumes "fetch_failed (fetch (searchRequest query))"
  shows "searchWithOllama fetch g w h query st =
           st\<lparr>isLoading := False,
              requests := requests st @ [searchRequest query],
              console := console st @
                [ConsoleError (if fetch (searchRequest query) = NetworkError
                               then ''Error searching:'' else ''Search failed'')]\<rparr>"
  using assms
  by (cases "fetch (searchRequest query)")
    (simp_all add: searchWithOllama_def fetch_failed_def Let_def)

lemma search_request:
  "take (Suc (length (requests st))) (requests (searchWithOllama fetch g w h query st))
     = requests st @ [searchRequest query]"
  by (simp add: searchWithOllama_def Let_def searchCsv_def
      split: fetch_result.splits option.splits)

section \<open>The claims\<close>

text \<open>
  Throughout, \<open>generateBrainNetwork width height showLabels g\<close> is the pair of the node list
  and the edge list that the source hands to \<^verbatim>\<open>setNodes\<close> and \<^verbatim>\<open>setConnections\<close>, for the
  sequence of draws \<open>g\<close>.
\<close>

text \<open>
  Claim C1, as amended. For every width and height, the layout generator produces a total
  node count equal to the clamp to [120, 180] of the integer part of width*height / 4000
  (the source applies \<^verbatim>\<open>Math.floor\<close> before clamping); in particular, for width 800 and
  height 600 the node count is exactly 120.
\<close>

theorem C1_node_count:
  "length (fst (generateBrainNetwork width height showLabels g))
     = nat (min 180 (max 120 \<lfloor>width * height / 4000\<rfloor>)) \<and>
   length (fst (generateBrainNetwork 800 600 showLabels g)) = 120"
  by (simp add: length_generate nodeCount_def)

text \<open>
  Claim C1 as stated, with the clamp taken on the quotient itself, fails wherever the
  quotient is not an integer: for width 1000 and height 501 the quotient is 125.25 and
  the layout has 125 nodes.
\<close>

theorem C1_real_clamp_counterexample:
  "real (length (fst (generateBrainNetwork 1000 501 False zeroRng)))
     \<noteq> spec_clamp (1000 * 501 / 4000) 120 180"
  by (simp add: length_generate nodeCount_def spec_clamp_def)

text \<open>
  Claim C2. Every edge of a generated layout joins two nodes of the layout whose distance
  is below the maximum distance for the type of its source node; its strength is
  max(0.2, 1 - distance / ceiling) for that ceiling, and so lies in (0, 1].
\<close>

theorem C2_edge_strength:
  assumes "generateBrainNetwork width height showLabels g = (nodes, edges)"
    and "e \<in> set edges"
  shows "\<exists>i j. i < length nodes \<and> j < length nodes \<and>
           conn_source e = node_id (nodes ! i) \<and> conn_target e = node_id (nodes ! j) \<and>
           euclid (nodes ! i) (nodes ! j) < maxDistance width height (node_type (nodes ! i)) \<and>
           conn_strength e =
             max 0.2 (1 - euclid (nodes ! i) (nodes ! j) /
                            maxDistance width height (node_type (nodes ! i))) \<and>
           0 < conn_strength e \<and> conn_strength e \<le> 1"
proof -
  have "edge_ok width height nodes e"
    using generate_edges_ok [of e width height showLabels g] assms by simp
  then obtain i j where ij: "i < length nodes" "j < length nodes"
      "conn_source e = node_id (nodes ! i)" "conn_target e = node_id (nodes ! j)"
      "euclid (nodes ! i) (nodes ! j) < maxDistance width height (node_type (nodes ! i))"
      "conn_strength e = max 0.2 (1 - euclid (nodes ! i) (nodes ! j) /
                            maxDistance width height (node_type (nodes ! i)))"
    unfolding edge_ok_def by blast
  have "0 < conn_strength e \<and> conn_strength e \<le> 1"
    unfolding ij(6) by (rule strength_range [OF euclid_nonneg ij(5)])
  with ij show ?thesis by blast
qed

text \<open>
  The layout for 800 by 600 with all draws 0 has an edge, and the theorem gives its
  strength range.
\<close>

theorem C2_edge_strength_witness:
  "\<exists>e. e \<in> set (snd (generateBrainNetwork 800 600 False zeroRng)) \<and>
       0 < conn_strength e \<and> conn_strength e \<le> 1"
proof -
  obtain e where e: "e \<in> set (snd (generateBrainNetwork 800 600 False zeroRng))"
    using example_edge by blast
  have g: "generateBrainNetwork 800 600 False zeroRng =
      (fst (generateBrainNetwork 800 600 False zeroRng), snd (generateBrainNetwork 800 600 False zeroRng))"
    by simp
  show ?thesis
    using C2_edge_strength [OF g e] e by blast
qed

text \<open>
  Claim C3. For every positive width and height and all draws in [0, 1), every node of a
  generated layout, hub or not, lies within the overall ellipse: its distance from the
  centre, normalized to the radii of the ellipse, is at most 1. The hubs are not clamped
  by the source; their regions and their offsets keep them inside.
\<close>

theorem C3_nodes_inside_ellipse:
  assumes "0 < width" and "0 < height" and "valid_rng g"
    and "n \<in> set (fst (generateBrainNetwork width height showLabels g))"
  shows "distanceFromCenter width height (node_x n) (node_y n) \<le> 1"
  using generate_inside [OF assms] by (simp add: insideBrain_def)

text \<open>
The first node of the layout for 800 by 600 with all draws 0.
\<close>

theorem C3_nodes_inside_ellipse_witness:
  "distanceFromCenter 800 600
     (node_x (fst (generateBrainNetwork 800 600 False zeroRng) ! 0))
     (node_y (fst (generateBrainNetwork 800 600 False zeroRng) ! 0)) \<le> 1"
proof -
  have "fst (generateBrainNetwork 800 600 False zeroRng) ! 0
      \<in> set (fst (generateBrainNetwork 800 600 False zeroRng))"
    by (rule nth_mem) (simp add: length_generate nodeCount_800_600)
  then show ?thesis
    using C3_nodes_inside_ellipse [of 800 600 zeroRng _ False] valid_zeroRng by simp
qed

text \<open>
  Claim C4, as amended. For the node at index \<open>i\<close> of a node list, with \<open>cc\<close> the target
  connection count drawn for it and \<open>nearby\<close> its candidate list:
  \<^item> \<open>cc\<close> lies in 6..13 for a hub and in 3..7 for any other node, within the ranges
    6-14 and 3-8 of the claim;
  \<^item> the candidates are the K = 2 * cc nearest other nodes by Euclidean distance (all
    others, when there are fewer than K), in ascending order of distance, each one a
    different node, and every node left out is at least as far as every candidate;
  \<^item> only the first \<open>cc\<close> candidates are tried, in that order, one draw each: the candidate
    at rank \<open>j\<close> becomes an edge exactly if its draw is below the acceptance probability
    for rank \<open>j\<close> and its distance is below the ceiling for the type of the node;
  \<^item> the acceptance probability never increases with the rank, and it is higher for a hub
    than for any other node.
\<close>

theorem C4_nearest_candidates:
  assumes i: "i < length ns" and r: "0 \<le> g k" "g k < 1"
    and cc: "cc = connectionCount (node_type (ns ! i)) (g k)"
    and nb: "nearby = nearbyNodes ns i cc"
  shows "(if node_type (ns ! i) = Main then 6 \<le> cc \<and> cc \<le> 13 else 3 \<le> cc \<and> cc \<le> 7) \<and>
         length nearby = min (2 * cc) (length ns - 1) \<and>
         sorted (map cand_distance nearby) \<and>
         distinct (map cand_index nearby) \<and>
         (\<forall>c\<in>set nearby. cand_index c < length ns \<and> cand_index c \<noteq> i \<and>
            cand_node c = ns ! cand_index c \<and>
            cand_distance c = euclid (ns ! i) (ns ! cand_index c)) \<and>
         (\<forall>m<length ns. m \<noteq> i \<and> m \<notin> cand_index ` set nearby \<longrightarrow>
            (\<forall>c\<in>set nearby. cand_distance c \<le> euclid (ns ! i) (ns ! m))) \<and>
         snd (snd (connectNode width height g i (ns, cs, k))) = k + 1 + min cc (length nearby) \<and>
         fst (snd (connectNode width height g i (ns, cs, k))) =
           cs @ map (\<lambda>j. newEdge width height (ns ! i) (nearby ! j))
                  (filter (\<lambda>j. g (k + 1 + j) < probability (node_type (ns ! i)) j cc \<and>
                               cand_distance (nearby ! j)
                                 < maxDistance width height (node_type (ns ! i)))
                     [0..<min cc (length nearby)]) \<and>
         (\<forall>j j'. j \<le> j' \<longrightarrow>
            probability (node_type (ns ! i)) j' cc \<le> probability (node_type (ns ! i)) j cc) \<and>
         (\<forall>ty j j' cc'. ty \<noteq> Main \<longrightarrow> probability ty j cc' < probability Main j' cc)"
proof -
  have c1: "if node_type (ns ! i) = Main then 6 \<le> cc \<and> cc \<le> 13 else 3 \<le> cc \<and> cc \<le> 7"
    using connectionCount_bounds [OF r, of "node_type (ns ! i)"] unfolding cc by simp
  have c2: "length nearby = min (2 * cc) (length ns - 1)"
    unfolding nb using i by (simp add: length_nearbyNodes mult.commute)
  have c3: "sorted (map cand_distance nearby)"
    unfolding nb by (rule sorted_nearbyNodes)
  have c4: "distinct (map cand_index nearby)"
    unfolding nb by (rule distinct_nearbyNodes)
  have c5: "\<forall>c\<in>set nearby. cand_index c < length ns \<and> cand_index c \<noteq> i \<and>
            cand_node c = ns ! cand_index c \<and>
            cand_distance c = euclid (ns ! i) (ns ! cand_index c)"
    unfolding nb using nearbyNodes_set by blast
  have c6: "\<forall>m<length ns. m \<noteq> i \<and> m \<notin> cand_index ` set nearby \<longrightarrow>
            (\<forall>c\<in>set nearby. cand_distance c \<le> euclid (ns ! i) (ns ! m))"
    unfolding nb using nearbyNodes_nearest by blast
  obtain ns' where e: "connectNode width height g i (ns, cs, k) =
      (ns',
       cs @ map (\<lambda>j. newEdge width height (ns ! i) (nearby ! j))
              (filter (accepted width height g (node_type (ns ! i)) cc nearby (k + 1))
                 [0..<min cc (length nearby)]),
       k + 1 + min cc (length nearby))"
    using connectNode_eq [OF i, of width height g cs k] unfolding cc [symmetric] nb [symmetric]
    by blast
  have a: "accepted width height g (node_type (ns ! i)) cc nearby (k + 1) =
      (\<lambda>j. g (k + 1 + j) < probability (node_type (ns ! i)) j cc \<and>
            cand_distance (nearby ! j) < maxDistance width height (node_type (ns ! i)))"
    by (rule ext) (simp add: accepted_def)
  have c7: "snd (snd (connectNode width height g i (ns, cs, k))) = k + 1 + min cc (length nearby)"
    unfolding e by simp
  have c8: "fst (snd (connectNode width height g i (ns, cs, k))) =
           cs @ map (\<lambda>j. newEdge width height (ns ! i) (nearby ! j))
                  (filter (\<lambda>j. g (k + 1 + j) < probability (node_type (ns ! i)) j cc \<and>
                               cand_distance (nearby ! j)
                                 < maxDistance width height (node_type (ns ! i)))
                     [0..<min cc (length nearby)])"
    unfolding e a by simp
  have c9: "\<forall>j j'. j \<le> j' \<longrightarrow>
            probability (node_type (ns ! i)) j' cc \<le> probability (node_type (ns ! i)) j cc"
    using probability_mono by blast
  have c10: "\<forall>ty j j' cc'. ty \<noteq> Main \<longrightarrow> probability ty j cc' < probability Main j' cc"
    using probability_hub by blast
  show ?thesis
    using c1 c2 c3 c4 c5 c6 c7 c8 c9 c10 by (intro conjI)
qed

text \<open>
  Eight nodes on a line, all draws 0: the first node has the six candidates at indices 1
  to 6, makes four draws (one for the count 3, three for the candidates tried), connects
  to the three nearest, and the node left out (index 7) is no nearer than the sixth
  candidate.
\<close>

theorem C4_nearest_candidates_witness:
  "map cand_index (nearbyNodes lineNodes 0 3) = [1, 2, 3, 4, 5, 6] \<and>
   snd (snd (connectNode 800 600 zeroRng 0 (lineNodes, [], 0))) = 4 \<and>
   map conn_target (fst (snd (connectNode 800 600 zeroRng 0 (lineNodes, [], 0))))
     = map node_id [lineNode 1, lineNode 2, lineNode 3] \<and>
   cand_distance (nearbyNodes lineNodes 0 3 ! 5) \<le> euclid (lineNodes ! 0) (lineNodes ! 7)"
proof -
  have h1: "0 < length lineNodes" by (simp add: lineNodes_def)
  have h2: "0 \<le> zeroRng 0" "zeroRng 0 < 1" by (simp_all add: zeroRng_def)
  have h3: "3 = connectionCount (node_type (lineNodes ! 0)) (zeroRng 0)"
    by (simp add: lineNodes_def lineNode_def connectionCount_def zeroRng_def)
  note T = C4_nearest_candidates [where i = 0 and ns = lineNodes and g = zeroRng and k = 0
      and cc = 3 and nearby = "nearbyNodes lineNodes 0 3" and width = 800 and height = 600
      and cs = "[]", OF h1 h2 h3 refl]
  have idx: "map cand_index (nearbyNodes lineNodes 0 3) = [1, 2, 3, 4, 5, 6]"
    by (rule lineNodes_nearby)
  have nodes: "map cand_node (nearbyNodes lineNodes 0 3)
      = [lineNode 1, lineNode 2, lineNode 3, lineNode 4, lineNode 5, lineNode 6]"
    by (simp add: nearbyNodes_def lineNodes_def euclid_lineNode upt_rec)
  have dist: "map cand_distance (nearbyNodes lineNodes 0 3) = [1, 2, 3, 4, 5, 6]"
    by (rule lineNodes_nearby2)
  have len: "length (nearbyNodes lineNodes 0 3) = 6"
    using arg_cong [OF idx, of length] by simp
  have nth_d: "cand_distance (nearbyNodes lineNodes 0 3 ! j) = [1, 2, 3, 4, 5, 6] ! j"
    if "j < 6" for j
    using that len dist by (metis nth_map)
  have nth_n: "cand_node (nearbyNodes lineNodes 0 3 ! j)
      = [lineNode 1, lineNode 2, lineNode 3, lineNode 4, lineNode 5, lineNode 6] ! j"
    if "j < 6" for j
    using that len nodes by (metis nth_map)
  have draws: "snd (snd (connectNode 800 600 zeroRng 0 (lineNodes, [], 0))) = 4"
    using T by (simp add: len)
  have ty: "node_type (lineNodes ! 0) = Connection"
    by (simp add: lineNodes_def lineNode_def)
  have u3: "[0..<3] = [0, 1, 2::nat]" by (simp add: upt_rec)
  have "fst (snd (connectNode 800 600 zeroRng 0 (lineNodes, [], 0))) =
      map (\<lambda>j. newEdge 800 600 (lineNodes ! 0) (nearbyNodes lineNodes 0 3 ! j)) [0, 1, 2]"
    using T by (simp add: len ty u3 zeroRng_def probability_def maxDistance_def nth_d)
  then have targets: "map conn_target (fst (snd (connectNode 800 600 zeroRng 0 (lineNodes, [], 0))))
      = map node_id [lineNode 1, lineNode 2, lineNode 3]"
    by (simp add: newEdge_def nth_n)
  have "7 \<notin> cand_index ` set (nearbyNodes lineNodes 0 3)"
    using arg_cong [OF idx, of set] by simp
  moreover have "nearbyNodes lineNodes 0 3 ! 5 \<in> set (nearbyNodes lineNodes 0 3)"
    by (rule nth_mem) (simp add: len)
  moreover have "(7::nat) < length lineNodes" by (simp add: lineNodes_def)
  ultimately have far: "cand_distance (nearbyNodes lineNodes 0 3 ! 5)
      \<le> euclid (lineNodes ! 0) (lineNodes ! 7)"
    using T by auto
  show ?thesis
    using idx draws targets far by (intro conjI)
qed

text \<open>
  Claim C4 as stated has every one of the K candidates tried. In the layout for 800 by 600
  with all draws 0, the first hub has 12 candidates; its turn makes 7 draws, one for
  the count and six for candidates, and adds at most 6 edges: the candidates at ranks 6
  to 11 are never tried.
\<close>

theorem C4_all_candidates_tried_counterexample:
  "length (nearbyNodes (fst (placeNodes 800 600 False zeroRng)) 0
      (connectionCount (node_type (fst (placeNodes 800 600 False zeroRng) ! 0))
         (zeroRng (snd (placeNodes 800 600 False zeroRng))))) = 12 \<and>
   snd (snd (connectNode 800 600 zeroRng 0
      (fst (placeNodes 800 600 False zeroRng), [], snd (placeNodes 800 600 False zeroRng))))
     = snd (placeNodes 800 600 False zeroRng) + 1 + 6 \<and>
   length (fst (snd (connectNode 800 600 zeroRng 0
      (fst (placeNodes 800 600 False zeroRng), [], snd (placeNodes 800 600 False zeroRng))))) \<le> 6"
proof -
  obtain ns0 k0 where p: "placeNodes 800 600 False zeroRng = (ns0, k0)"
    by (cases "placeNodes 800 600 False zeroRng") auto
  note z = zero_run_first_step [OF p]
  have i0: "0 < length ns0" using z(1) by simp
  obtain ns1 where s1: "connectNode 800 600 zeroRng 0 (ns0, [], k0) =
      (ns1,
       [] @ map (\<lambda>j. newEdge 800 600 (ns0 ! 0) (nearbyNodes ns0 0 6 ! j))
              (filter (accepted 800 600 zeroRng (node_type (ns0 ! 0)) 6 (nearbyNodes ns0 0 6) (k0 + 1))
                 [0..<min 6 (length (nearbyNodes ns0 0 6))]),
       k0 + 1 + min 6 (length (nearbyNodes ns0 0 6)))"
    using connectNode_eq [OF i0, of 800 600 zeroRng "[]" k0] unfolding z(2) by blast
  have "length (filter (accepted 800 600 zeroRng (node_type (ns0 ! 0)) 6 (nearbyNodes ns0 0 6) (k0 + 1))
                 [0..<min 6 (length (nearbyNodes ns0 0 6))]) \<le> length [0..<min 6 (length (nearbyNodes ns0 0 6))]"
    by (rule length_filter_le)
  then have le: "length (fst (snd (connectNode 800 600 zeroRng 0 (ns0, [], k0)))) \<le> 6"
    unfolding s1 by (simp add: z(3))
  have dr: "snd (snd (connectNode 800 600 zeroRng 0 (ns0, [], k0))) = k0 + 1 + 6"
    unfolding s1 by (simp add: z(3))
  show ?thesis
    unfolding p fst_conv snd_conv z(2) using z(3) dr le by (intro conjI)
qed

text \<open>
  Claim C5. For every width and height and either value of the flag, a generated layout
  has exactly 5 labeled nodes; they are its first five nodes and exactly its nodes of
  type main, and their labels are the vocabulary the flag selects: Mobility, Funding,
  Electric Vehicles, Startups, Europe when it is set, and Mobility, Funding, Startups,
  Technology, Europe when it is not.
\<close>

theorem C5_hub_labels:
  "filter (\<lambda>n. node_label n \<noteq> None) (fst (generateBrainNetwork width height showLabels g))
     = take 5 (fst (generateBrainNetwork width height showLabels g)) \<and>
   filter (\<lambda>n. node_type n = Main) (fst (generateBrainNetwork width height showLabels g))
     = take 5 (fst (generateBrainNetwork width height showLabels g)) \<and>
   length (take 5 (fst (generateBrainNetwork width height showLabels g))) = 5 \<and>
   map node_label (take 5 (fst (generateBrainNetwork width height showLabels g)))
     = (if showLabels
        then [Some ''Mobility'', Some ''Funding'', Some ''Electric Vehicles'', Some ''Startups'',
              Some ''Europe'']
        else [Some ''Mobility'', Some ''Funding'', Some ''Startups'', Some ''Technology'',
              Some ''Europe''])"
proof -
  have "length (fst (generateBrainNetwork width height showLabels g)) \<ge> 5"
    using nodeCount_bounds [of width height] by (simp add: length_generate)
  then have "length (take 5 (fst (generateBrainNetwork width height showLabels g))) = 5"
    by simp
  moreover have "map (Some \<circ> snd) (centralNodes showLabels)
     = (if showLabels
        then [Some ''Mobility'', Some ''Funding'', Some ''Electric Vehicles'', Some ''Startups'',
              Some ''Europe'']
        else [Some ''Mobility'', Some ''Funding'', Some ''Startups'', Some ''Technology'',
              Some ''Europe''])"
    by (simp add: centralNodes_def)
  ultimately show ?thesis
    using generate_hubs [of width height showLabels g] by simp
qed

text \<open>
  Claim C6. In every generated layout, the source and the target of every edge are
  identifiers of nodes of the layout. The node list is complete before the first edge is
  recorded and no identifier changes afterwards.
\<close>

theorem C6_edge_endpoints_exist:
  assumes "e \<in> set (snd (generateBrainNetwork width height showLabels g))"
  shows "conn_source e \<in> node_id ` set (fst (generateBrainNetwork width height showLabels g)) \<and>
         conn_target e \<in> node_id ` set (fst (generateBrainNetwork width height showLabels g))"
proof -
  have "edge_ok width height (fst (generateBrainNetwork width height showLabels g)) e"
    using assms by (rule generate_edges_ok)
  then show ?thesis
    unfolding edge_ok_def by (metis imageI nth_mem)
qed

text \<open>
An edge of the layout for 800 by 600 with all draws 0.
\<close>

theorem C6_edge_endpoints_exist_witness:
  "\<exists>e. e \<in> set (snd (generateBrainNetwork 800 600 False zeroRng)) \<and>
       conn_source e \<in> node_id ` set (fst (generateBrainNetwork 800 600 False zeroRng)) \<and>
       conn_target e \<in> node_id ` set (fst (generateBrainNetwork 800 600 False zeroRng))"
proof -
  obtain e where e: "e \<in> set (snd (generateBrainNetwork 800 600 False zeroRng))"
    using example_edge by blast
  show ?thesis
    using C6_edge_endpoints_exist [OF e] e by blast
qed

text \<open>
  Claim C7. When the HTTP call of a search submission fails, by a network error or by a
  response whose status is not a success, the error is logged on the console, the loading
  indicator is cleared and nothing else of the state changes: no field holds an error
  message for the user, and the results panel is visible afterwards exactly if it was
  before.
\<close>

theorem C7_search_failure:
  assumes "fetch (searchRequest query) = NetworkError \<or>
           (\<exists>body. fetch (searchRequest query) = Response False body)"
  shows "searchWithOllama fetch g width height query st =
           st\<lparr>isLoading := False,
              requests := requests st @ [searchRequest query],
              console := console st @
                [ConsoleError (if fetch (searchRequest query) = NetworkError
                               then ''Error searching:'' else ''Search failed'')]\<rparr> \<and>
         \<not> isLoading (searchWithOllama fetch g width height query st) \<and>
         resultsPanelVisible (searchWithOllama fetch g width height query st)
           = resultsPanelVisible st"
proof -
  have f: "fetch_failed (fetch (searchRequest query))"
    using assms by (auto simp add: fetch_failed_def)
  show ?thesis
    unfolding search_failure [of fetch query, OF f] by (simp add: resultsPanelVisible_def)
qed

text \<open>
  A first search on the freshly mounted page, answered with an HTTP error or not answered
  at all: the page is as before except for the request and the log entry, and the results
  panel stays hidden.
\<close>

theorem C7_search_failure_witness:
  "searchWithOllama (\<lambda>r. Response False None) zeroRng 1000 800 ''fintech'' (initialPage Map.empty)
     = (initialPage Map.empty)
         \<lparr>isLoading := False,
          requests := [searchRequest ''fintech''],
          console := [ConsoleError ''Search failed'']\<rparr> \<and>
   searchWithOllama (\<lambda>r. NetworkError) zeroRng 1000 800 ''fintech'' (initialPage Map.empty)
     = (initialPage Map.empty)
         \<lparr>isLoading := False,
          requests := [searchRequest ''fintech''],
          console := [ConsoleError ''Error searching:'']\<rparr> \<and>
   \<not> resultsPanelVisible
       (searchWithOllama (\<lambda>r. Response False None) zeroRng 1000 800 ''fintech''
          (initialPage Map.empty)) \<and>
   \<not> resultsPanelVisible
       (searchWithOllama (\<lambda>r. NetworkError) zeroRng 1000 800 ''fintech''
          (initialPage Map.empty))"
  using C7_search_failure [of "\<lambda>r. Response False None" "''fintech''" zeroRng 1000 800
      "initialPage Map.empty"]
    C7_search_failure [of "\<lambda>r. NetworkError" "''fintech''" zeroRng 1000 800
      "initialPage Map.empty"]
  by (simp add: initialPage_def resultsPanelVisible_def)

text \<open>
  Claim C8 says that the request of a search goes to a base URL taken from the
  environment. The source does not read the environment: with
  \<^verbatim>\<open>REACT_APP_API_URL\<close> set to \<^verbatim>\<open>https://api.example.com\<close>, the search for \<^verbatim>\<open>fintech\<close>
  is still posted to \<^verbatim>\<open>http://localhost:8001/api/search\<close>. The method, the path and the
  body are as the claim says.
\<close>

theorem C8_search_url_fixed:
  "requests (searchWithOllama fetch g width height ''fintech''
       (initialPage [''REACT_APP_API_URL'' \<mapsto> ''https://api.example.com''])) ! 0
     = \<lparr>req_method = ''POST'',
        req_url = ''http://localhost:8001/api/search'',
        req_headers = [(''Content-Type'', ''application/json'')],
        req_body = Some (JObj [(''query'', JStr ''fintech'')])\<rparr>"
proof -
  define st where "st = initialPage [''REACT_APP_API_URL'' \<mapsto> ''https://api.example.com'']"
  have r: "requests st = []" by (simp add: st_def initialPage_def)
  have "take (Suc (length (requests st))) (requests (searchWithOllama fetch g width height ''fintech'' st))
      = requests st @ [searchRequest ''fintech'']"
    by (rule search_request)
  then have "take (Suc 0) (requests (searchWithOllama fetch g width height ''fintech'' st))
      = [searchRequest ''fintech'']"
    unfolding r by simp
  then have "requests (searchWithOllama fetch g width height ''fintech'' st) ! 0
      = searchRequest ''fintech''"
    by (metis lessI nth_Cons_0 nth_take)
  then show ?thesis
    unfolding st_def by (simp add: searchRequest_def)
qed

text \<open>
  Claim C9. In every generated layout the node identifiers are pairwise different, across
  hubs and other nodes.
\<close>

theorem C9_node_ids_unique:
  "distinct (map node_id (fst (generateBrainNetwork width height showLabels g)))"
  by (rule distinct_generate_ids)

text \<open>
  Claim C10. No edge of a generated layout is a self-loop: its source identifier differs
  from its target identifier, because the candidate list of a node leaves the node out by
  index and identifiers are unique.
\<close>

theorem C10_no_self_loop:
  assumes "e \<in> set (snd (generateBrainNetwork width height showLabels g))"
  shows "conn_source e \<noteq> conn_target e"
proof -
  define nodes where "nodes = fst (generateBrainNetwork width height showLabels g)"
  have "edge_ok width height nodes e"
    unfolding nodes_def using assms by (rule generate_edges_ok)
  then obtain i j where ij: "i < length nodes" "j < length nodes" "j \<noteq> i"
      "conn_source e = node_id (nodes ! i)" "conn_target e = node_id (nodes ! j)"
    unfolding edge_ok_def by blast
  have "distinct (map node_id nodes)"
    unfolding nodes_def by (rule distinct_generate_ids)
  then have "map node_id nodes ! i \<noteq> map node_id nodes ! j"
    using ij(1-3) by (metis distinct_conv_nth length_map)
  then show ?thesis
    using ij by simp
qed

text \<open>
An edge of the layout for 800 by 600 with all draws 0.
\<close>

theorem C10_no_self_loop_witness:
  "\<exists>e. e \<in> set (snd (generateBrainNetwork 800 600 False zeroRng)) \<and>
       conn_source e \<noteq> conn_target e"
proof -
  obtain e where e: "e \<in> set (snd (generateBrainNetwork 800 600 False zeroRng))"
    using example_edge by blast
  show ?thesis
    using C10_no_self_loop [OF e] e by blast
qed

end
